theory Spec2Isabelle
  imports Main "HOL-Library.Word"
begin

section \<open>JavaScript strings\<close>

text \<open>
  A JavaScript string is a sequence of UTF-16 code units. String literals of the source
  are ASCII and are written \<open>js ''...''\<close>; the line feed is \<open>NL\<close>.
\<close>

type_synonym jschar = "16 word"
type_synonym jsstring = "jschar list"

definition js :: "string \<Rightarrow> jsstring" where
  "js s = map (\<lambda>c. of_nat (of_char c)) s"

abbreviation NL :: jschar where
  "NL \<equiv> 0x0A"

text \<open>
  \<open>String.prototype.trim\<close> removes the code units of WhiteSpace and LineTerminator
  (ECMAScript 2015 and later) from both ends.
\<close>

definition isWhiteSpace :: "jschar \<Rightarrow> bool" where
  "isWhiteSpace c \<longleftrightarrow>
     (0x0009 \<le> c \<and> c \<le> 0x000D) \<or> c = 0x0020 \<or> c = 0x00A0 \<or> c = 0x1680 \<or>
     (0x2000 \<le> c \<and> c \<le> 0x200A) \<or> c = 0x2028 \<or> c = 0x2029 \<or> c = 0x202F \<or>
     c = 0x205F \<or> c = 0x3000 \<or> c = 0xFEFF"

definition trim :: "jsstring \<Rightarrow> jsstring" where
  "trim s = rev (dropWhile isWhiteSpace (rev (dropWhile isWhiteSpace s)))"

definition startsWith :: "jsstring \<Rightarrow> jsstring \<Rightarrow> bool" where
  "startsWith s p \<longleftrightarrow> take (length p) s = p"

definition endsWith :: "jsstring \<Rightarrow> jsstring \<Rightarrow> bool" where
  "endsWith s p \<longleftrightarrow> startsWith (rev s) (rev p)"

text \<open>\<open>s.replace(pat, rep)\<close> with a string pattern: the first occurrence only.\<close>

fun replaceFirst :: "jsstring \<Rightarrow> jsstring \<Rightarrow> jsstring \<Rightarrow> jsstring" where
  "replaceFirst pat rep [] = (if pat = [] then rep else [])"
| "replaceFirst pat rep (c # cs) =
     (if startsWith (c # cs) pat then rep @ drop (length pat) (c # cs)
      else c # replaceFirst pat rep cs)"

text \<open>\<open>s.repeat(n)\<close>.\<close>

definition repeat :: "jsstring \<Rightarrow> nat \<Rightarrow> jsstring" where
  "repeat s n = concat (replicate n s)"

text \<open>The decimal rendering of a natural number in a template literal.\<close>

fun string_of_nat :: "nat \<Rightarrow> jsstring" where
  "string_of_nat n =
     (if n < 10 then [of_nat (48 + n)]
      else string_of_nat (n div 10) @ [of_nat (48 + n mod 10)])"

declare string_of_nat.simps [simp del]

text \<open>A string is truthy when it is present and not empty; \<open>a || b\<close> on strings.\<close>

fun truthy :: "jsstring option \<Rightarrow> bool" where
  "truthy None = False"
| "truthy (Some s) = (s \<noteq> [])"

fun orElse :: "jsstring option \<Rightarrow> jsstring \<Rightarrow> jsstring" where
  "orElse None d = d"
| "orElse (Some s) d = (if s \<noteq> [] then s else d)"

section \<open>The document tree of the Google Docs API, as the code reads it\<close>

record docs_link =
  url :: "jsstring option"

record text_style =
  bold :: bool
  italic :: bool
  underline :: bool
  strikethrough :: bool
  link :: "docs_link option"

record text_run =
  run_content :: "jsstring option"
  textStyle :: "text_style option"

record paragraph_element =
  textRun :: "text_run option"

record list_properties =
  list_type :: "jsstring option"

record bullet_info =
  listProperties :: "list_properties option"
  nestingLevel :: "nat option"

record paragraph_style =
  namedStyleType :: "jsstring option"

record para =
  bullet :: "bullet_info option"
  elements :: "paragraph_element list option"
  paragraphStyle :: "paragraph_style option"

text \<open>
  A structural element carries a paragraph, a table, or something the converter ignores
  (a section break, a table of contents). A table cell holds structural elements again.
\<close>

datatype element = Paragraph para | Table table | OtherElement
  and table = TableOf (tableRows: "table_row list option")
  and table_row = TableRow (tableCells: "table_cell list option")
  and table_cell = TableCell (cell_content: "element list option")

record body =
  body_content :: "element list option"

record tab_properties =
  tab_title :: "jsstring option"

record document_tab =
  dt_body :: "body option"

datatype tab = Tab (tabProperties: "tab_properties option") (documentTab: "document_tab option")
  (tab_body: "body option") (childTabs: "tab list option")

record gdoc =
  doc_title :: "jsstring option"
  tabs :: "tab list option"
  doc_body :: "body option"

record sec =
  title :: jsstring
  content :: jsstring
  level :: nat
  parentTab :: jsstring
  sourceDocument :: "jsstring option"

record page =
  page_title :: jsstring
  page_content :: jsstring
  page_parentTab :: jsstring
  page_sourceDocument :: "jsstring option"

section \<open>Run formatter, bullets, tables, heading levels\<close>

definition applyTextFormatting :: "jsstring \<Rightarrow> text_style \<Rightarrow> jsstring" where
  "applyTextFormatting text st =
     (let formatted = text;
          formatted = (if bold st then js ''**'' @ formatted @ js ''**'' else formatted);
          formatted = (if italic st then js ''*'' @ formatted @ js ''*'' else formatted);
          formatted = (if underline st then js ''<u>'' @ formatted @ js ''</u>'' else formatted);
          formatted = (if strikethrough st then js ''~~'' @ formatted @ js ''~~'' else formatted)
      in case link st of
           None \<Rightarrow> formatted
         | Some l \<Rightarrow>
             (case url l of
                None \<Rightarrow> formatted
              | Some u \<Rightarrow>
                  if u \<noteq> [] then js ''['' @ formatted @ js '']('' @ u @ js '')''
                  else formatted))"

definition getBulletInfo :: "para \<Rightarrow> jsstring" where
  "getBulletInfo p =
     (case bullet p of
        None \<Rightarrow> []
      | Some b \<Rightarrow>
          (let nesting = (case nestingLevel b of None \<Rightarrow> 0 | Some n \<Rightarrow> n)
           in if (case listProperties b of
                    None \<Rightarrow> False
                  | Some lp \<Rightarrow> list_type lp = Some (js ''ORDERED''))
              then repeat (js ''  '') nesting @ js ''1. ''
              else repeat (js ''  '') nesting @ js ''- ''))"

text \<open>
  The guard \<open>element.textRun && element.textRun.content\<close> of both paragraph loops: the
  run and its text when the guard holds.
\<close>

definition runText :: "paragraph_element \<Rightarrow> (text_run \<times> jsstring) option" where
  "runText e =
     (case textRun e of
        None \<Rightarrow> None
      | Some r \<Rightarrow>
          (case run_content r of
             None \<Rightarrow> None
           | Some t \<Rightarrow> if t \<noteq> [] then Some (r, t) else None))"

definition extractTextFromParagraph :: "para \<Rightarrow> jsstring" where
  "extractTextFromParagraph p =
     (case elements p of
        None \<Rightarrow> []
      | Some es \<Rightarrow>
          foldl (\<lambda>text e. case runText e of
                   None \<Rightarrow> text
                 | Some (r, t) \<Rightarrow> text @ t) [] es)"

definition extractFormattedTextFromParagraph :: "para \<Rightarrow> jsstring" where
  "extractFormattedTextFromParagraph p =
     (let formattedText = getBulletInfo p
      in case elements p of
           None \<Rightarrow> formattedText
         | Some es \<Rightarrow>
             foldl (\<lambda>acc e. case runText e of
                      None \<Rightarrow> acc
                    | Some (r, text) \<Rightarrow>
                        (case textStyle r of
                           None \<Rightarrow> acc @ text
                         | Some st \<Rightarrow> acc @ applyTextFormatting text st))
                   formattedText es)"

definition cellText :: "table_cell \<Rightarrow> jsstring" where
  "cellText cell =
     (case cell_content cell of
        None \<Rightarrow> []
      | Some es \<Rightarrow>
          foldl (\<lambda>cellContent e. case e of
                   Paragraph p \<Rightarrow> cellContent @ extractTextFromParagraph p
                 | _ \<Rightarrow> cellContent) [] es)"

definition rowMarkdown :: "table_row \<Rightarrow> jsstring" where
  "rowMarkdown row =
     (case tableCells row of
        None \<Rightarrow> js ''|''
      | Some cells \<Rightarrow>
          foldl (\<lambda>acc cell. acc @ js '' '' @ trim (cellText cell) @ js '' |'') (js ''|'') cells)"

definition separatorRow :: "table_row \<Rightarrow> jsstring" where
  "separatorRow row =
     (case tableCells row of
        None \<Rightarrow> []
      | Some cells \<Rightarrow> js ''|'' @ repeat (js '' --- |'') (length cells) @ [NL])"

definition extractTableFromElement :: "table \<Rightarrow> jsstring" where
  "extractTableFromElement t =
     (case tableRows t of
        None \<Rightarrow> []
      | Some rows \<Rightarrow>
          foldl (\<lambda>markdown (i, row).
                   markdown @ rowMarkdown row @ [NL] @ (if i = 0 then separatorRow row else []))
                [] (enumerate 0 rows))"

definition getHeadingLevel :: "para \<Rightarrow> nat" where
  "getHeadingLevel p =
     (case paragraphStyle p of
        None \<Rightarrow> 0
      | Some ps \<Rightarrow>
          (case namedStyleType ps of
             None \<Rightarrow> 0
           | Some styleType \<Rightarrow>
               if styleType = [] then 0
               else if styleType = js ''HEADING_1'' then 1
               else if styleType = js ''HEADING_2'' then 2
               else if styleType = js ''HEADING_3'' then 3
               else if styleType = js ''HEADING_4'' then 4
               else if styleType = js ''HEADING_5'' then 5
               else if styleType = js ''HEADING_6'' then 6
               else if styleType = js ''TITLE'' then 1
               else if styleType = js ''SUBTITLE'' then 2
               else 0))"

section \<open>Section segmenter\<close>

text \<open>The three variables the loop of \<open>extractSectionsFromBody\<close> updates.\<close>

record seg_state =
  sections :: "sec list"
  currentSection :: "sec option"
  allContent :: jsstring

definition initialState :: seg_state where
  "initialState = \<lparr>sections = [], currentSection = None, allContent = []\<rparr>"

text \<open>\<open>if (currentSection && currentSection.content.trim()) sections.push(currentSection)\<close>.\<close>

definition pushCurrent :: "seg_state \<Rightarrow> sec list" where
  "pushCurrent st =
     (case currentSection st of
        None \<Rightarrow> sections st
      | Some c \<Rightarrow> if trim (content c) \<noteq> [] then sections st @ [c] else sections st)"

definition defaultSection :: "jsstring \<Rightarrow> jsstring \<Rightarrow> sec" where
  "defaultSection parentName c =
     \<lparr>title = parentName, content = c, level = 1, parentTab = parentName,
      sourceDocument = None\<rparr>"

text \<open>One iteration of the loop over \<open>body.content\<close>.\<close>

definition processElement :: "jsstring \<Rightarrow> seg_state \<Rightarrow> element \<Rightarrow> seg_state" where
  "processElement parentName st e =
     (case e of
        Paragraph p \<Rightarrow>
          (let formattedText = extractFormattedTextFromParagraph p
           in if trim formattedText = [] then st
              else
                (let all = allContent st @ formattedText @ [NL];
                     headingLevel = getHeadingLevel p
                 in if headingLevel > 0
                    then \<lparr>sections = pushCurrent st,
                          currentSection =
                            Some \<lparr>title = trim formattedText, content = [], level = headingLevel,
                                  parentTab = parentName, sourceDocument = None\<rparr>,
                          allContent = all\<rparr>
                    else (case currentSection st of
                            Some c \<Rightarrow>
                              \<lparr>sections = sections st,
                               currentSection =
                                 Some (c\<lparr>content := content c @ formattedText @ [NL]\<rparr>),
                               allContent = all\<rparr>
                          | None \<Rightarrow>
                              \<lparr>sections = sections st,
                               currentSection =
                                 Some (defaultSection parentName (formattedText @ [NL])),
                               allContent = all\<rparr>)))
      | Table t \<Rightarrow>
          (let tableMarkdown = extractTableFromElement t;
               all = allContent st @ tableMarkdown @ [NL, NL]
           in case currentSection st of
                Some c \<Rightarrow>
                  \<lparr>sections = sections st,
                   currentSection = Some (c\<lparr>content := content c @ tableMarkdown @ [NL, NL]\<rparr>),
                   allContent = all\<rparr>
              | None \<Rightarrow>
                  \<lparr>sections = sections st,
                   currentSection = Some (defaultSection parentName (tableMarkdown @ [NL, NL])),
                   allContent = all\<rparr>)
      | OtherElement \<Rightarrow> st)"

definition traverse :: "jsstring \<Rightarrow> element list \<Rightarrow> seg_state" where
  "traverse parentName es = foldl (processElement parentName) initialState es"

text \<open>The sections after the loop and the push of the final section.\<close>

definition traversalSections :: "jsstring \<Rightarrow> element list \<Rightarrow> sec list" where
  "traversalSections parentName es = pushCurrent (traverse parentName es)"

text \<open>The fallback section when nothing was pushed but content was tracked.\<close>

definition withFallback :: "jsstring \<Rightarrow> jsstring \<Rightarrow> sec list \<Rightarrow> sec list" where
  "withFallback parentName all secs =
     (if length secs = 0 \<and> trim all \<noteq> []
      then secs @ [defaultSection parentName (trim all)]
      else secs)"

text \<open>The renaming of a single section that is named after a placeholder tab.\<close>

definition renameSingle :: "jsstring \<Rightarrow> sec list \<Rightarrow> sec list" where
  "renameSingle parentName secs =
     (case secs of
        [s] \<Rightarrow>
          (if title s = parentName \<and> startsWith parentName (js ''Tab '')
           then [s\<lparr>title := orElse (sourceDocument s)
                               (replaceFirst (js ''Tab '') (js ''Document '') parentName)\<rparr>]
           else secs)
      | _ \<Rightarrow> secs)"

definition extractSectionsFromBody :: "body option \<Rightarrow> jsstring \<Rightarrow> sec list" where
  "extractSectionsFromBody b parentName =
     (case b of
        None \<Rightarrow> []
      | Some bd \<Rightarrow>
          (case body_content bd of
             None \<Rightarrow> []
           | Some es \<Rightarrow>
               renameSingle parentName
                 (withFallback parentName (allContent (traverse parentName es))
                    (traversalSections parentName es))))"

section \<open>Tree flattener\<close>

definition tabTitle :: "tab \<Rightarrow> nat \<Rightarrow> jsstring" where
  "tabTitle t tabIndex =
     orElse (case tabProperties t of None \<Rightarrow> None | Some tp \<Rightarrow> tab_title tp)
            (js ''Tab '' @ string_of_nat (tabIndex + 1))"

definition effectiveTabName :: "tab \<Rightarrow> nat \<Rightarrow> jsstring option \<Rightarrow> jsstring" where
  "effectiveTabName t tabIndex documentTitle =
     (case documentTitle of
        None \<Rightarrow> tabTitle t tabIndex
      | Some d \<Rightarrow>
          if tabTitle t tabIndex = js ''Tab 1'' \<and> d \<noteq> [] then d else tabTitle t tabIndex)"

definition tabBody :: "tab \<Rightarrow> body option" where
  "tabBody t =
     (case documentTab t of
        Some dt \<Rightarrow> (case dt_body dt of Some b \<Rightarrow> Some b | None \<Rightarrow> tab_body t)
      | None \<Rightarrow> tab_body t)"

definition extractSectionsFromTab :: "tab \<Rightarrow> nat \<Rightarrow> jsstring option \<Rightarrow> sec list" where
  "extractSectionsFromTab t tabIndex documentTitle =
     (case tabBody t of
        None \<Rightarrow> []
      | Some b \<Rightarrow> extractSectionsFromBody (Some b) (effectiveTabName t tabIndex documentTitle))"

definition allTabs :: "tab list \<Rightarrow> tab list" where
  "allTabs ts =
     foldl (\<lambda>acc mainTab.
              acc @ [mainTab] @
                (case childTabs mainTab of
                   None \<Rightarrow> []
                 | Some cs \<Rightarrow> if length cs > 0 then cs else []))
           [] ts"

definition extractSectionsFromGoogleDoc :: "gdoc \<Rightarrow> sec list" where
  "extractSectionsFromGoogleDoc doc =
     (case tabs doc of
        Some ts \<Rightarrow>
          (if length ts > 0
           then foldl (\<lambda>secs (tabIndex, t).
                         secs @ extractSectionsFromTab t tabIndex (doc_title doc))
                      [] (enumerate 0 (allTabs ts))
           else (case doc_body doc of
                   Some b \<Rightarrow> extractSectionsFromBody (Some b) (orElse (doc_title doc) (js ''Document''))
                 | None \<Rightarrow> []))
      | None \<Rightarrow>
          (case doc_body doc of
             Some b \<Rightarrow> extractSectionsFromBody (Some b) (orElse (doc_title doc) (js ''Document''))
           | None \<Rightarrow> []))"

section \<open>Page renderer\<close>

text \<open>\<open>replace(/\n{3,}/g, '\n\n')\<close>: every maximal run of three or more line feeds becomes two.\<close>

function collapseNewlines :: "jsstring \<Rightarrow> jsstring" where
  "collapseNewlines (a # b # c # cs) =
     (if a = NL \<and> b = NL \<and> c = NL
      then NL # NL # collapseNewlines (dropWhile (\<lambda>x. x = NL) cs)
      else a # collapseNewlines (b # c # cs))"
| "collapseNewlines [a, b] = [a, b]"
| "collapseNewlines [a] = [a]"
| "collapseNewlines [] = []"
  by pat_completeness auto
termination
  by (relation "measure length") (auto intro!: le_imp_less_Suc le_SucI length_dropWhile_le)

text \<open>\<open>replace(/\.([A-Z])/g, '. $1')\<close>: a space after a period that an upper-case letter follows.\<close>

definition isUpper :: "jschar \<Rightarrow> bool" where
  "isUpper c \<longleftrightarrow> 0x41 \<le> c \<and> c \<le> 0x5A"

fun spaceAfterPeriods :: "jsstring \<Rightarrow> jsstring" where
  "spaceAfterPeriods (a # b # cs) =
     (if a = 0x2E \<and> isUpper b
      then 0x2E # 0x20 # b # spaceAfterPeriods cs
      else a # spaceAfterPeriods (b # cs))"
| "spaceAfterPeriods [a] = [a]"
| "spaceAfterPeriods [] = []"

text \<open>\<open>replace(/[ \t]{2,}/g, ' ')\<close>: every maximal run of two or more spaces or tabs becomes one space.\<close>

definition isBlank :: "jschar \<Rightarrow> bool" where
  "isBlank c \<longleftrightarrow> c = 0x20 \<or> c = 0x09"

function collapseSpaces :: "jsstring \<Rightarrow> jsstring" where
  "collapseSpaces (a # b # cs) =
     (if isBlank a \<and> isBlank b
      then 0x20 # collapseSpaces (dropWhile isBlank cs)
      else a # collapseSpaces (b # cs))"
| "collapseSpaces [a] = [a]"
| "collapseSpaces [] = []"
  by pat_completeness auto
termination
  by (relation "measure length") (auto intro!: le_imp_less_Suc le_SucI length_dropWhile_le)

text \<open>
  The clean-up of \<open>createNotionPageFromSection\<close>: the content trimmed, the three
  replacements in the order of the source, and the result trimmed again.
\<close>

definition normalizeContent :: "jsstring \<Rightarrow> jsstring" where
  "normalizeContent c = trim (collapseSpaces (spaceAfterPeriods (collapseNewlines (trim c))))"

definition headerPrefix :: "nat \<Rightarrow> jsstring" where
  "headerPrefix lvl = repeat (js ''#'') (min (if lvl = 0 then 1 else lvl) 6)"

definition createNotionPageFromSection :: "sec \<Rightarrow> page" where
  "createNotionPageFromSection s =
     (let markdownContent = headerPrefix (level s) @ js '' '' @ title s @ [NL, NL];
          markdownContent = markdownContent @ normalizeContent (content s);
          markdownContent =
            (if \<not> endsWith markdownContent [NL] then markdownContent @ [NL]
             else markdownContent)
      in \<lparr>page_title = title s, page_content = markdownContent,
          page_parentTab = parentTab s, page_sourceDocument = sourceDocument s\<rparr>)"

definition createNotionPagesFromSections :: "sec list \<Rightarrow> page list" where
  "createNotionPagesFromSections secs = map createNotionPageFromSection secs"

section \<open>Folder processing\<close>

text \<open>
  A member of a Drive folder as the listing returns it, and the four requests that
  \<open>processDocumentById\<close> tries in turn: request \<open>k\<close> for a document id either throws
  (the error's message) or returns the document.
\<close>

record drive_file =
  file_id :: jsstring
  file_name :: jsstring

type_synonym fetcher = "nat \<Rightarrow> jsstring \<Rightarrow> jsstring + gdoc"

definition fetchDocument :: "fetcher \<Rightarrow> jsstring \<Rightarrow> jsstring + gdoc" where
  "fetchDocument fetch docId =
     (case fetch 1 docId of
        Inr doc \<Rightarrow> Inr doc
      | Inl error1 \<Rightarrow>
          (case fetch 2 docId of
             Inr doc \<Rightarrow> Inr doc
           | Inl error2 \<Rightarrow>
               (case fetch 3 docId of
                  Inr doc \<Rightarrow> Inr doc
                | Inl error3 \<Rightarrow> fetch 4 docId)))"

definition processDocumentById ::
  "fetcher \<Rightarrow> jsstring \<Rightarrow> jsstring option \<Rightarrow> jsstring + sec list" where
  "processDocumentById fetch docId docName =
     (case fetchDocument fetch docId of
        Inl err \<Rightarrow> Inl err
      | Inr doc \<Rightarrow>
          (let finalDocName =
                 orElse docName (orElse (doc_title doc) (js ''Document '' @ docId))
           in Inr (map (\<lambda>s. s\<lparr>sourceDocument := Some finalDocName\<rparr>)
                       (extractSectionsFromGoogleDoc doc))))"

definition emptyDocumentSection :: "drive_file \<Rightarrow> sec" where
  "emptyDocumentSection d =
     \<lparr>title = file_name d,
      content = js ''This document appears to be empty or contains no recognizable content.'',
      level = 1, parentTab = js ''Document'', sourceDocument = Some (file_name d)\<rparr>"

definition errorSection :: "drive_file \<Rightarrow> jsstring \<Rightarrow> sec" where
  "errorSection d message =
     \<lparr>title = js ''Error - '' @ file_name d,
      content = js ''Failed to process this document: '' @ message @ [NL, NL] @
        js ''This could be due to:'' @ [NL] @
        js ''- Document access restrictions'' @ [NL] @
        js ''- Document format not supported'' @ [NL] @
        js ''- Network connectivity issues'' @ [NL, NL] @
        js ''Please check the document permissions and try again.'',
      level = 1, parentTab = js ''Error'', sourceDocument = Some (file_name d)\<rparr>"

text \<open>The body of the loop over the listed documents, with its \<open>try\<close>/\<open>catch\<close>.\<close>

definition processMember :: "fetcher \<Rightarrow> sec list \<Rightarrow> drive_file \<Rightarrow> sec list" where
  "processMember fetch allSections d =
     (case processDocumentById fetch (file_id d) (Some (file_name d)) of
        Inr docSections \<Rightarrow>
          (if length docSections = 0 then allSections @ [emptyDocumentSection d]
           else allSections @ docSections)
      | Inl message \<Rightarrow> allSections @ [errorSection d message])"

text \<open>
  \<open>processFolderWithGoogleAPI\<close> from the listed documents on, up to the pages it hands to
  the packaging: \<open>Inl\<close> is the message of the error it throws.
\<close>

definition processFolderWithGoogleAPI :: "fetcher \<Rightarrow> drive_file list \<Rightarrow> jsstring + page list" where
  "processFolderWithGoogleAPI fetch docs =
     (if length docs = 0 then Inl (js ''No Google Docs found in the specified folder'')
      else
        (let allSections = foldl (processMember fetch) [] docs
         in if length allSections = 0
            then Inl (js ''No content sections found in any of the documents'')
            else Inr (createNotionPagesFromSections allSections)))"

section \<open>Notions used to state the properties\<close>

text \<open>Conditional wrapping of a run, as each \<open>if\<close> of \<open>applyTextFormatting\<close> does it.\<close>

definition wrapIf :: "bool \<Rightarrow> jsstring \<Rightarrow> jsstring \<Rightarrow> jsstring \<Rightarrow> jsstring" where
  "wrapIf b l r s = (if b then l @ s @ r else s)"

text \<open>
  Inputs of the scenarios: a paragraph with one unformatted text run and a named style, as a
  level-1 heading, a level-2 heading and normal text; a table without rows and a table of one
  cell; the body of Scenario A.
\<close>

definition textParagraph :: "jsstring option \<Rightarrow> jsstring \<Rightarrow> para" where
  "textParagraph style text =
     \<lparr>bullet = None,
      elements = Some [\<lparr>textRun = Some \<lparr>run_content = Some text, textStyle = None\<rparr>\<rparr>],
      paragraphStyle = Some \<lparr>namedStyleType = style\<rparr>\<rparr>"

definition heading1 :: "jsstring \<Rightarrow> element" where
  "heading1 t = Paragraph (textParagraph (Some (js ''HEADING_1'')) t)"

definition heading2 :: "jsstring \<Rightarrow> element" where
  "heading2 t = Paragraph (textParagraph (Some (js ''HEADING_2'')) t)"

definition normalText :: "jsstring \<Rightarrow> element" where
  "normalText t = Paragraph (textParagraph (Some (js ''NORMAL_TEXT'')) t)"

definition emptyTable :: element where
  "emptyTable = Table (TableOf None)"

definition oneCellTable :: "jsstring \<Rightarrow> element" where
  "oneCellTable t = Table (TableOf (Some [TableRow (Some [TableCell (Some [normalText t])])]))"

definition scenarioA :: body where
  "scenarioA =
     \<lparr>body_content = Some
        [normalText (js ''Intro text''), heading1 (js ''Setup''), normalText (js ''Step one''),
         heading2 (js ''Details''), normalText (js ''More info'')]\<rparr>"

text \<open>The section a heading paragraph opens, and the current section (or a default one) extended by text.\<close>

definition headingSection :: "jsstring \<Rightarrow> para \<Rightarrow> sec" where
  "headingSection parentName p =
     \<lparr>title = trim (extractFormattedTextFromParagraph p), content = [],
      level = getHeadingLevel p, parentTab = parentName, sourceDocument = None\<rparr>"

definition extendSection :: "jsstring \<Rightarrow> sec option \<Rightarrow> jsstring \<Rightarrow> sec" where
  "extendSection parentName cur text =
     (case cur of
        None \<Rightarrow> defaultSection parentName text
      | Some c \<Rightarrow> c\<lparr>content := content c @ text\<rparr>)"

text \<open>
  A heading element is a paragraph that is not skipped and has a heading level. The body text
  of an element is what it adds to the content of the current section: nothing for a heading,
  a skipped paragraph or an ignored element. The body up to the next heading collects the body
  text of the elements before the next heading element.
\<close>

definition isHeadingElement :: "element \<Rightarrow> bool" where
  "isHeadingElement e =
     (case e of
        Paragraph p \<Rightarrow> trim (extractFormattedTextFromParagraph p) \<noteq> [] \<and> 0 < getHeadingLevel p
      | _ \<Rightarrow> False)"

definition bodyText :: "element \<Rightarrow> jsstring" where
  "bodyText e =
     (case e of
        Paragraph p \<Rightarrow>
          if trim (extractFormattedTextFromParagraph p) = [] \<or> 0 < getHeadingLevel p then []
          else extractFormattedTextFromParagraph p @ [NL]
      | Table t \<Rightarrow> extractTableFromElement t @ [NL, NL]
      | OtherElement \<Rightarrow> [])"

definition bodyUpToHeading :: "element list \<Rightarrow> jsstring" where
  "bodyUpToHeading es = concat (map bodyText (takeWhile (\<lambda>e. \<not> isHeadingElement e) es))"

text \<open>Every heading paragraph of a body, in order, with the body text that follows it.\<close>

fun headingGroups :: "element list \<Rightarrow> (para \<times> jsstring) list" where
  "headingGroups [] = []"
| "headingGroups (Paragraph p # es) =
     (if isHeadingElement (Paragraph p) then (p, bodyUpToHeading es) # headingGroups es
      else headingGroups es)"
| "headingGroups (e # es) = headingGroups es"

definition groupSection :: "jsstring \<Rightarrow> para \<times> jsstring \<Rightarrow> sec" where
  "groupSection parentName g =
     \<lparr>title = trim (extractFormattedTextFromParagraph (fst g)), content = snd g,
      level = getHeadingLevel (fst g), parentTab = parentName, sourceDocument = None\<rparr>"

definition nonBlankSections :: "sec list \<Rightarrow> sec list" where
  "nonBlankSections secs = filter (\<lambda>s. trim (content s) \<noteq> []) secs"

text \<open>The current section of a state, an empty default section standing for none.\<close>

definition current :: "jsstring \<Rightarrow> seg_state \<Rightarrow> sec" where
  "current pn st = (case currentSection st of None \<Rightarrow> defaultSection pn [] | Some c \<Rightarrow> c)"

text \<open>
  What an element adds to \<open>allContent\<close>, and all of it for a body; the elements after the
  last heading element.
\<close>

definition seenText :: "element \<Rightarrow> jsstring" where
  "seenText e =
     (case e of
        Paragraph p \<Rightarrow>
          if trim (extractFormattedTextFromParagraph p) = [] then []
          else extractFormattedTextFromParagraph p @ [NL]
      | Table t \<Rightarrow> extractTableFromElement t @ [NL, NL]
      | OtherElement \<Rightarrow> [])"

definition seenContent :: "element list \<Rightarrow> jsstring" where
  "seenContent es = concat (map seenText es)"

definition afterLastHeading :: "element list \<Rightarrow> element list" where
  "afterLastHeading es = rev (takeWhile (\<lambda>e. \<not> isHeadingElement e) (rev es))"

text \<open>
  The named style of a paragraph, and a paragraph (an element) styled as a title or subtitle
  restyled as a level-1 or level-2 heading.
\<close>

definition namedStyle :: "para \<Rightarrow> jsstring option" where
  "namedStyle p = (case paragraphStyle p of None \<Rightarrow> None | Some ps \<Rightarrow> namedStyleType ps)"

definition titleAsHeading :: "para \<Rightarrow> para" where
  "titleAsHeading p =
     (if namedStyle p = Some (js ''TITLE'')
      then p\<lparr>paragraphStyle := Some \<lparr>namedStyleType = Some (js ''HEADING_1'')\<rparr>\<rparr>
      else if namedStyle p = Some (js ''SUBTITLE'')
      then p\<lparr>paragraphStyle := Some \<lparr>namedStyleType = Some (js ''HEADING_2'')\<rparr>\<rparr>
      else p)"

fun titlesAsHeadings :: "element \<Rightarrow> element" where
  "titlesAsHeadings (Paragraph p) = Paragraph (titleAsHeading p)"
| "titlesAsHeadings e = e"

text \<open>A tab without a (non-empty) title, and a tab titled "Tab 1".\<close>

definition untitled :: "tab \<Rightarrow> bool" where
  "untitled t = (case tabProperties t of None \<Rightarrow> True | Some tp \<Rightarrow> \<not> truthy (tab_title tp))"

definition titledTab1 :: "tab \<Rightarrow> bool" where
  "titledTab1 t = (case tabProperties t of None \<Rightarrow> False | Some tp \<Rightarrow> tab_title tp = Some (js ''Tab 1''))"

text \<open>
  Normal forms of the three replacements of the page renderer: the length of the leading run
  of line feeds, no three line feeds in a row, no period directly before an upper-case
  letter, no two blanks in a row.
\<close>

definition nlRun :: "jsstring \<Rightarrow> nat" where
  "nlRun s = length (takeWhile (\<lambda>x. x = NL) s)"

fun noTripleNL :: "jsstring \<Rightarrow> bool" where
  "noTripleNL (a # b # c # cs) = (\<not> (a = NL \<and> b = NL \<and> c = NL) \<and> noTripleNL (b # c # cs))"
| "noTripleNL [a, b] = True"
| "noTripleNL [a] = True"
| "noTripleNL [] = True"

definition noPeriodUpper :: "jsstring \<Rightarrow> bool" where
  "noPeriodUpper = successively (\<lambda>a b. \<not> (a = 0x2E \<and> isUpper b))"

definition noBlankRun :: "jsstring \<Rightarrow> bool" where
  "noBlankRun = successively (\<lambda>a b. \<not> (isBlank a \<and> isBlank b))"

text \<open>
  The child tabs of a tab, and the tabs of a document flattened: every top-level tab followed
  by its child tabs.
\<close>

definition childrenOf :: "tab \<Rightarrow> tab list" where
  "childrenOf t = (case childTabs t of None \<Rightarrow> [] | Some cs \<Rightarrow> cs)"

definition flattenTabs :: "tab list \<Rightarrow> tab list" where
  "flattenTabs ts = concat (map (\<lambda>t. t # childrenOf t) ts)"

text \<open>
  The page of a section is as the page renderer's contract says: the header of
  min(level, 6) '#', a space, the title, a blank line, the normalized content, and exactly one
  line feed at the end.
\<close>

definition pageAsClaimed :: "sec \<Rightarrow> bool" where
  "pageAsClaimed s \<longleftrightarrow>
     page_content (createNotionPageFromSection s) =
       repeat (js ''#'') (min (level s) 6) @ js '' '' @ title s @ [NL, NL] @
         normalizeContent (content s) @ [NL] \<and>
     normalizeContent (content s) \<noteq> [] \<and>
     last (normalizeContent (content s)) \<noteq> NL \<and>
     endsWith (page_content (createNotionPageFromSection s)) [NL] \<and>
     \<not> endsWith (page_content (createNotionPageFromSection s)) [NL, NL]"

text \<open>
  The sections one member document adds to the collected sections, and the inputs of
  Scenario D: three listed documents, every request for the second of which fails with
  "not-found".
\<close>

definition memberEntries :: "fetcher \<Rightarrow> drive_file \<Rightarrow> sec list" where
  "memberEntries fetch d = processMember fetch [] d"

definition scenarioD_docs :: "drive_file list" where
  "scenarioD_docs =
     [\<lparr>file_id = js ''id1'', file_name = js ''One''\<rparr>,
      \<lparr>file_id = js ''id2'', file_name = js ''Two''\<rparr>,
      \<lparr>file_id = js ''id3'', file_name = js ''Three''\<rparr>]"

definition scenarioD_fetch :: fetcher where
  "scenarioD_fetch k docId =
     (if docId = js ''id2'' then Inl (js ''not-found'')
      else Inr \<lparr>doc_title = Some (js ''Notes''), tabs = None,
                doc_body = Some \<lparr>body_content = Some [normalText (js ''Hello'')]\<rparr>\<rparr>)"

section \<open>Properties of strings\<close>

lemma js_Nil [simp]: "js [] = []" by (simp add: js_def)
lemma js_Cons: "js (c # cs) = of_nat (of_char c) # js cs" by (simp add: js_def)
lemma js_append: "js (a @ b) = js a @ js b" by (simp add: js_def)

lemma trim_Nil [simp]: "trim [] = []" by (simp add: trim_def)

lemma dropWhile_all_iff: "(\<forall>x\<in>set (dropWhile P s). P x) \<longleftrightarrow> dropWhile P s = []"
proof
  assume a: "\<forall>x\<in>set (dropWhile P s). P x"
  show "dropWhile P s = []"
  proof (rule ccontr)
    assume n: "dropWhile P s \<noteq> []"
    then have "\<not> P (hd (dropWhile P s))" by (rule hd_dropWhile)
    moreover from n have "hd (dropWhile P s) \<in> set (dropWhile P s)" by (rule hd_in_set)
    ultimately show False using a by blast
  qed
next
  assume "dropWhile P s = []"
  then show "\<forall>x\<in>set (dropWhile P s). P x" by (auto dest: set_dropWhileD)
qed

lemma trim_eq_Nil_iff: "trim s = [] \<longleftrightarrow> (\<forall>c\<in>set s. isWhiteSpace c)"
  by (simp add: trim_def dropWhile_eq_Nil_conv dropWhile_all_iff)

lemma trim_fixed:
  assumes "s \<noteq> []" "\<not> isWhiteSpace (hd s)" "\<not> isWhiteSpace (last s)"
  shows "trim s = s"
proof -
  from assms have 1: "dropWhile isWhiteSpace s = s" by (cases s) auto
  from assms have "dropWhile isWhiteSpace (rev s) = rev s"
    by (cases "rev s") (auto simp: last_rev[symmetric] hd_rev)
  with 1 show ?thesis by (simp add: trim_def)
qed

lemma trim_ends:
  assumes "trim s \<noteq> []"
  shows "\<not> isWhiteSpace (hd (trim s))" "\<not> isWhiteSpace (last (trim s))"
proof -
  let ?d = "dropWhile isWhiteSpace s"
  let ?r = "dropWhile isWhiteSpace (rev ?d)"
  from assms have r: "?r \<noteq> []" by (simp add: trim_def)
  have d: "?d \<noteq> []"
  proof
    assume "?d = []"
    with r show False by simp
  qed
  have "\<not> isWhiteSpace (hd ?r)" using r by (rule hd_dropWhile)
  then show "\<not> isWhiteSpace (last (trim s))" using r by (simp add: trim_def last_rev)
  have "\<not> isWhiteSpace (hd ?d)" using d by (rule hd_dropWhile)
  moreover have "last ?r = last (rev ?d)"
    using r by (metis last_appendR takeWhile_dropWhile_id)
  ultimately show "\<not> isWhiteSpace (hd (trim s))"
    using r d by (simp add: trim_def hd_rev last_rev)
qed

lemma trim_idem [simp]: "trim (trim s) = trim s"
proof (cases "trim s = []")
  case True then show ?thesis by simp
next
  case False then show ?thesis using trim_ends[OF False] by (intro trim_fixed) auto
qed

lemma trim_Cons_nonblank: "\<not> isWhiteSpace c \<Longrightarrow> trim (c # cs) \<noteq> []"
  by (auto simp: trim_eq_Nil_iff)

section \<open>The steps of the segmenter\<close>

lemma processElement_Other: "processElement pn st OtherElement = st"
  by (simp add: processElement_def)

lemma processElement_blank:
  "trim (extractFormattedTextFromParagraph p) = [] \<Longrightarrow> processElement pn st (Paragraph p) = st"
  by (simp add: processElement_def)

lemma processElement_heading:
  "trim (extractFormattedTextFromParagraph p) \<noteq> [] \<Longrightarrow> 0 < getHeadingLevel p \<Longrightarrow>
   processElement pn st (Paragraph p) =
     \<lparr>sections = pushCurrent st, currentSection = Some (headingSection pn p),
      allContent = allContent st @ extractFormattedTextFromParagraph p @ [NL]\<rparr>"
  by (simp add: processElement_def headingSection_def Let_def)

lemma processElement_text:
  "trim (extractFormattedTextFromParagraph p) \<noteq> [] \<Longrightarrow> getHeadingLevel p = 0 \<Longrightarrow>
   processElement pn st (Paragraph p) =
     \<lparr>sections = sections st,
      currentSection = Some (extendSection pn (currentSection st) (extractFormattedTextFromParagraph p @ [NL])),
      allContent = allContent st @ extractFormattedTextFromParagraph p @ [NL]\<rparr>"
  by (simp add: processElement_def extendSection_def Let_def split: option.split)

lemma processElement_table:
  "processElement pn st (Table t) =
     \<lparr>sections = sections st,
      currentSection = Some (extendSection pn (currentSection st) (extractTableFromElement t @ [NL, NL])),
      allContent = allContent st @ extractTableFromElement t @ [NL, NL]\<rparr>"
  by (simp add: processElement_def extendSection_def Let_def split: option.split)

lemma fmt_textParagraph: "extractFormattedTextFromParagraph (textParagraph st t) = t"
  by (cases t) (simp_all add: extractFormattedTextFromParagraph_def textParagraph_def getBulletInfo_def runText_def)

lemma level_textParagraph:
  "getHeadingLevel (textParagraph (Some (js ''NORMAL_TEXT'')) t) = 0"
  "getHeadingLevel (textParagraph (Some (js ''HEADING_1'')) t) = 1"
  "getHeadingLevel (textParagraph (Some (js ''HEADING_2'')) t) = 2"
  by (simp_all add: getHeadingLevel_def textParagraph_def js_def)

lemma trim_js_fixed:
  "\<not> isWhiteSpace (of_nat (of_char c)) \<Longrightarrow> \<not> isWhiteSpace (last (js (c # cs))) \<Longrightarrow> trim (js (c # cs)) = js (c # cs)"
  by (rule trim_fixed) (simp_all add: js_Cons)

lemma scenario_strings:
  "trim (js ''Intro text'') = js ''Intro text''"
  "trim (js ''Setup'') = js ''Setup''"
  "trim (js ''Step one'') = js ''Step one''"
  "trim (js ''Details'') = js ''Details''"
  "trim (js ''More info'') = js ''More info''"
  by (rule trim_js_fixed; simp add: js_def isWhiteSpace_def)+

lemma js_nonempty: "js (c # cs) \<noteq> []" by (simp add: js_def)

lemma trim_append_nonblank: "trim s \<noteq> [] \<Longrightarrow> trim (s @ t) \<noteq> []"
  by (auto simp: trim_eq_Nil_iff)

lemma pushCurrent_current: "pushCurrent st = sections st @ nonBlankSections [current pn st]"
  by (simp add: pushCurrent_def nonBlankSections_def current_def defaultSection_def split: option.split)

lemma bodyUpToHeading_Nil [simp]: "bodyUpToHeading [] = []"
  by (simp add: bodyUpToHeading_def)

lemma bodyUpToHeading_Cons:
  "bodyUpToHeading (e # es) = (if isHeadingElement e then [] else bodyText e @ bodyUpToHeading es)"
  by (simp add: bodyUpToHeading_def)

lemma traverse_step_char:
  "pushCurrent (foldl (processElement pn) st es) =
     sections st @
     nonBlankSections
       ((current pn st)\<lparr>content := content (current pn st) @ bodyUpToHeading es\<rparr> #
        map (groupSection pn) (headingGroups es))"
proof (induction es arbitrary: st)
  case Nil
  show ?case by (simp add: pushCurrent_current[of _ pn])
next
  case (Cons e es)
  show ?case
  proof (cases e)
    case OtherElement
    then show ?thesis
      by (simp add: Cons.IH processElement_Other bodyUpToHeading_Cons isHeadingElement_def bodyText_def)
  next
    case (Table t)
    have "current pn (processElement pn st (Table t)) =
            (current pn st)\<lparr>content := content (current pn st) @ extractTableFromElement t @ [NL, NL]\<rparr>"
      by (simp add: processElement_table current_def extendSection_def defaultSection_def split: option.split)
    with Table show ?thesis
      by (simp add: Cons.IH bodyUpToHeading_Cons isHeadingElement_def bodyText_def processElement_table)
  next
    case (Paragraph p)
    let ?f = "extractFormattedTextFromParagraph p"
    show ?thesis
    proof (cases "trim ?f = []")
      case True
      with Paragraph show ?thesis
        by (simp add: Cons.IH processElement_blank bodyUpToHeading_Cons isHeadingElement_def bodyText_def)
    next
      case nb: False
      show ?thesis
      proof (cases "0 < getHeadingLevel p")
        case True
        have h: "isHeadingElement (Paragraph p)" using nb True by (simp add: isHeadingElement_def)
        have s: "processElement pn st (Paragraph p) =
                 \<lparr>sections = pushCurrent st, currentSection = Some (headingSection pn p),
                  allContent = allContent st @ ?f @ [NL]\<rparr>"
          using nb True by (rule processElement_heading)
        have g: "(headingSection pn p)\<lparr>content := content (headingSection pn p) @ bodyUpToHeading es\<rparr> =
                 groupSection pn (p, bodyUpToHeading es)"
          by (simp add: headingSection_def groupSection_def)
        show ?thesis
          unfolding Paragraph
          by (simp add: Cons.IH s h bodyUpToHeading_Cons current_def g
              pushCurrent_current[of st pn] nonBlankSections_def)
      next
        case False
        then have z: "getHeadingLevel p = 0" by simp
        have h: "\<not> isHeadingElement (Paragraph p)" using z by (simp add: isHeadingElement_def)
        have s: "processElement pn st (Paragraph p) =
                 \<lparr>sections = sections st,
                  currentSection = Some (extendSection pn (currentSection st) (?f @ [NL])),
                  allContent = allContent st @ ?f @ [NL]\<rparr>"
          using nb z by (rule processElement_text)
        have c: "current pn (processElement pn st (Paragraph p)) =
                 (current pn st)\<lparr>content := content (current pn st) @ ?f @ [NL]\<rparr>"
          by (simp add: s current_def extendSection_def defaultSection_def split: option.split)
        have b: "bodyText (Paragraph p) = ?f @ [NL]" using nb z by (simp add: bodyText_def)
        have ss: "sections (processElement pn st (Paragraph p)) = sections st"
          by (simp add: s)
        show ?thesis
          unfolding Paragraph
          by (simp add: Cons.IH c h b bodyUpToHeading_Cons ss)
      qed
    qed
  qed
qed

lemma traversalSections_char:
  "traversalSections pn es =
     nonBlankSections (defaultSection pn (bodyUpToHeading es) # map (groupSection pn) (headingGroups es))"
  by (simp add: traversalSections_def traverse_def traverse_step_char initialState_def current_def defaultSection_def)

section \<open>What the segmenter computes\<close>

lemma trim_append_eq_Nil: "trim (a @ b) = [] \<longleftrightarrow> trim a = [] \<and> trim b = []"
  by (auto simp: trim_eq_Nil_iff)

lemma allContent_processElement:
  "allContent (processElement pn st e) = allContent st @ seenText e"
  by (cases e) (simp_all add: processElement_def seenText_def Let_def split: option.split)

lemma allContent_foldl:
  "allContent (foldl (processElement pn) st es) = allContent st @ seenContent es"
  by (induction es arbitrary: st) (simp_all add: seenContent_def allContent_processElement)

lemma allContent_traverse: "allContent (traverse pn es) = seenContent es"
  by (simp add: traverse_def allContent_foldl initialState_def)

lemma bodyText_ends: "bodyText e \<noteq> [] \<Longrightarrow> last (bodyText e) = NL"
  by (cases e) (simp_all add: bodyText_def split: if_splits)

lemma bodyUpToHeading_ends: "bodyUpToHeading es \<noteq> [] \<Longrightarrow> last (bodyUpToHeading es) = NL"
proof (induction es)
  case Nil then show ?case by simp
next
  case (Cons e es)
  then show ?case
    using bodyText_ends[of e]
    by (cases "bodyUpToHeading es = []") (auto simp: bodyUpToHeading_Cons split: if_splits)
qed

lemma headingGroups_ends:
  "g \<in> set (headingGroups es) \<Longrightarrow> snd g \<noteq> [] \<Longrightarrow> last (snd g) = NL"
  by (induction es rule: headingGroups.induct) (auto simp: bodyUpToHeading_ends split: if_splits)

lemma traversalSections_content:
  assumes "s \<in> set (traversalSections pn es)"
  shows "trim (content s) \<noteq> [] \<and> last (content s) = NL"
proof -
  from assms
  have "s \<in> set (filter (\<lambda>s. trim (content s) \<noteq> [])
                 (defaultSection pn (bodyUpToHeading es) # map (groupSection pn) (headingGroups es)))"
    by (simp only: traversalSections_char nonBlankSections_def)
  then have nb: "trim (content s) \<noteq> []"
    and mem: "s = defaultSection pn (bodyUpToHeading es) \<or> s \<in> groupSection pn ` set (headingGroups es)"
    unfolding set_filter by auto
  from nb have ne: "content s \<noteq> []" by auto
  from mem show ?thesis
  proof
    assume "s = defaultSection pn (bodyUpToHeading es)"
    with ne nb show ?thesis using bodyUpToHeading_ends[of es] by (simp add: defaultSection_def)
  next
    assume "s \<in> groupSection pn ` set (headingGroups es)"
    then obtain g where g: "g \<in> set (headingGroups es)" "s = groupSection pn g" by auto
    with ne have "snd g \<noteq> []" by (simp add: groupSection_def)
    with g have "last (snd g) = NL" by (auto dest: headingGroups_ends)
    with g nb show ?thesis by (simp add: groupSection_def)
  qed
qed

lemma renameSingle_content:
  "s \<in> set (renameSingle pn secs) \<Longrightarrow> \<exists>s' \<in> set secs. content s = content s' \<and> level s = level s' \<and> parentTab s = parentTab s'"
  by (auto simp: renameSingle_def split: list.splits if_splits)

lemma withFallback_cases:
  "withFallback pn all secs = (if secs = [] \<and> trim all \<noteq> [] then [defaultSection pn (trim all)] else secs)"
  by (simp add: withFallback_def)

lemma replaceFirst_prefix:
  "startsWith s pat \<Longrightarrow> replaceFirst pat rep s = rep @ drop (length pat) s"
  by (cases s) (auto simp: startsWith_def)

lemma replaceFirst_Tab:
  "startsWith pn (js ''Tab '') \<Longrightarrow> replaceFirst (js ''Tab '') rep pn = rep @ drop 4 pn"
proof -
  have len: "length (js ''Tab '') = 4" by (simp add: js_def)
  assume "startsWith pn (js ''Tab '')"
  then show ?thesis by (simp add: replaceFirst_prefix len)
qed

lemma no_sections_iff_aux:
  "(trim (bodyUpToHeading es) = [] \<and> (\<forall>g\<in>set (headingGroups es). trim (snd g) = [])) \<longleftrightarrow>
   (\<forall>e\<in>set es. trim (bodyText e) = [])"
proof (induction es)
  case Nil then show ?case by simp
next
  case (Cons e es)
  show ?case
  proof (cases "isHeadingElement e")
    case True
    then obtain p where e: "e = Paragraph p" by (cases e) (auto simp: isHeadingElement_def)
    have "bodyText e = []" using True e by (auto simp: bodyText_def isHeadingElement_def)
    with True e Cons.IH show ?thesis by (auto simp: bodyUpToHeading_Cons)
  next
    case False
    then have "headingGroups (e # es) = headingGroups es" by (cases e) auto
    with False Cons.IH show ?thesis by (auto simp: bodyUpToHeading_Cons trim_append_eq_Nil)
  qed
qed

lemma traversalSections_Nil_iff:
  "traversalSections pn es = [] \<longleftrightarrow> (\<forall>e\<in>set es. trim (bodyText e) = [])"
  unfolding no_sections_iff_aux[symmetric]
  by (auto simp: traversalSections_char nonBlankSections_def filter_empty_conv defaultSection_def groupSection_def)

lemma headingGroups_filter:
  "map (Paragraph \<circ> fst) (headingGroups es) = filter isHeadingElement es"
  by (induction es rule: headingGroups.induct) (simp_all add: isHeadingElement_def)

lemma headingGroups_Nil_iff: "headingGroups es = [] \<longleftrightarrow> (\<forall>e\<in>set es. \<not> isHeadingElement e)"
proof -
  have "headingGroups es = [] \<longleftrightarrow> map (Paragraph \<circ> fst) (headingGroups es) = []" by simp
  also have "\<dots> \<longleftrightarrow> filter isHeadingElement es = []" by (simp only: headingGroups_filter)
  also have "\<dots> \<longleftrightarrow> (\<forall>e\<in>set es. \<not> isHeadingElement e)" by (simp add: filter_empty_conv)
  finally show ?thesis .
qed

lemma headingGroups_Cons_heading:
  "isHeadingElement e \<Longrightarrow> \<exists>p. e = Paragraph p \<and> headingGroups (e # es) = (p, bodyUpToHeading es) # headingGroups es"
  by (cases e) (auto simp: isHeadingElement_def)

lemma headingGroups_Cons_other:
  "\<not> isHeadingElement e \<Longrightarrow> headingGroups (e # es) = headingGroups es"
  by (cases e) auto

lemma afterLastHeading_Cons:
  "afterLastHeading (e # es) =
     (if \<forall>x\<in>set es. \<not> isHeadingElement x then (if isHeadingElement e then es else e # es)
      else afterLastHeading es)"
  by (auto simp: afterLastHeading_def takeWhile_append)

lemma bodyUpToHeading_all:
  "\<forall>x\<in>set es. \<not> isHeadingElement x \<Longrightarrow> bodyUpToHeading es = concat (map bodyText es)"
proof -
  assume "\<forall>x\<in>set es. \<not> isHeadingElement x"
  then have tw: "takeWhile (\<lambda>e. \<not> isHeadingElement e) es = es" by (simp add: takeWhile_eq_all_conv)
  show ?thesis unfolding bodyUpToHeading_def tw by (rule refl)
qed

lemma last_headingGroups:
  "headingGroups es \<noteq> [] \<Longrightarrow>
   snd (last (headingGroups es)) = concat (map bodyText (afterLastHeading es))"
proof (induction es)
  case Nil then show ?case by simp
next
  case (Cons e es)
  show ?case
  proof (cases "headingGroups es = []")
    case True
    then have all: "\<forall>x\<in>set es. \<not> isHeadingElement x" by (simp add: headingGroups_Nil_iff)
    with Cons.prems True have h: "isHeadingElement e"
      by (cases "isHeadingElement e") (simp_all add: headingGroups_Cons_other)
    then obtain p where "headingGroups (e # es) = (p, bodyUpToHeading es) # headingGroups es"
      using headingGroups_Cons_heading by blast
    with True all h show ?thesis
      by (simp add: afterLastHeading_Cons bodyUpToHeading_all)
  next
    case False
    then have ex: "\<not> (\<forall>x\<in>set es. \<not> isHeadingElement x)" by (simp add: headingGroups_Nil_iff)
    have "last (headingGroups (e # es)) = last (headingGroups es)"
    proof (cases "isHeadingElement e")
      case True
      then obtain p where "headingGroups (e # es) = (p, bodyUpToHeading es) # headingGroups es"
        using headingGroups_Cons_heading by blast
      with False show ?thesis by simp
    next
      case False
      then show ?thesis by (simp add: headingGroups_Cons_other)
    qed
    moreover have "afterLastHeading (e # es) = afterLastHeading es"
      using ex by (simp only: afterLastHeading_Cons if_False)
    ultimately show ?thesis using Cons.IH[OF False] by simp
  qed
qed

lemma renameSingle_id:
  "\<not> (length secs = 1 \<and> startsWith pn (js ''Tab '') \<and> title (hd secs) = pn) \<Longrightarrow>
   renameSingle pn secs = secs"
  by (auto simp: renameSingle_def split: list.splits)

section \<open>The scenario inputs\<close>

lemma extractSectionsFromBody_char:
  "extractSectionsFromBody (Some \<lparr>body_content = Some es\<rparr>) pn =
     renameSingle pn (withFallback pn (seenContent es)
       (nonBlankSections (defaultSection pn (bodyUpToHeading es) #
                          map (groupSection pn) (headingGroups es))))"
  by (simp add: extractSectionsFromBody_def allContent_traverse traversalSections_char)

lemma fixture_heading:
  "isHeadingElement (heading1 t) = (trim t \<noteq> [])"
  "isHeadingElement (heading2 t) = (trim t \<noteq> [])"
  "isHeadingElement (normalText t) = False"
  "isHeadingElement emptyTable = False"
  "isHeadingElement (oneCellTable t) = False"
  by (simp_all add: isHeadingElement_def heading1_def heading2_def normalText_def emptyTable_def
      oneCellTable_def fmt_textParagraph level_textParagraph)

lemma fixture_bodyText:
  "bodyText (heading1 t) = []"
  "bodyText (heading2 t) = []"
  "bodyText (normalText t) = (if trim t = [] then [] else t @ [NL])"
  "bodyText emptyTable = [NL, NL]"
  by (simp_all add: bodyText_def heading1_def heading2_def normalText_def emptyTable_def
      fmt_textParagraph level_textParagraph extractTableFromElement_def)

lemma fixture_seenText:
  "seenText (heading1 t) = (if trim t = [] then [] else t @ [NL])"
  "seenText (heading2 t) = (if trim t = [] then [] else t @ [NL])"
  "seenText (normalText t) = (if trim t = [] then [] else t @ [NL])"
  "seenText emptyTable = [NL, NL]"
  by (simp_all add: seenText_def heading1_def heading2_def normalText_def emptyTable_def
      fmt_textParagraph extractTableFromElement_def)

lemma fixture_groups:
  "trim t \<noteq> [] \<Longrightarrow> headingGroups (heading1 t # es) =
     (textParagraph (Some (js ''HEADING_1'')) t, bodyUpToHeading es) # headingGroups es"
  "trim t \<noteq> [] \<Longrightarrow> headingGroups (heading2 t # es) =
     (textParagraph (Some (js ''HEADING_2'')) t, bodyUpToHeading es) # headingGroups es"
  "headingGroups (normalText t # es) = headingGroups es"
  "headingGroups (emptyTable # es) = headingGroups es"
  "headingGroups (oneCellTable t # es) = headingGroups es"
  using fixture_heading(1)[of t] fixture_heading(2)[of t] fixture_heading(3)[of t]
  by (simp_all add: heading1_def heading2_def normalText_def emptyTable_def oneCellTable_def)

lemma oneCellTable_markdown:
  "extractTableFromElement (TableOf (Some [TableRow (Some [TableCell (Some [normalText (js ''a'')])])])) =
     js ''| a |'' @ [NL] @ js ''| --- |'' @ [NL]"
proof -
  have t: "trim (js ''a'') = js ''a''" by (rule trim_js_fixed; simp add: js_def isWhiteSpace_def)
  have c: "cellText (TableCell (Some [normalText (js ''a'')])) = js ''a''"
    by (simp add: cellText_def normalText_def extractTextFromParagraph_def textParagraph_def runText_def js_def)
  show ?thesis
    by (simp add: extractTableFromElement_def enumerate_eq_zip rowMarkdown_def separatorRow_def c t repeat_def)
       (simp add: js_def)
qed

lemma fixture_bodyText_table:
  "bodyText (oneCellTable (js ''a'')) = js ''| a |'' @ [NL] @ js ''| --- |'' @ [NL, NL, NL]"
  by (simp add: bodyText_def oneCellTable_def oneCellTable_markdown)

lemma fixture_seenText_table:
  "seenText (oneCellTable (js ''a'')) = js ''| a |'' @ [NL] @ js ''| --- |'' @ [NL, NL, NL]"
  by (simp add: seenText_def oneCellTable_def oneCellTable_markdown)

lemma not_Tab_Guide: "\<not> startsWith (js ''Guide'') (js ''Tab '')"
  by (simp add: startsWith_def js_def)

lemma trim_NLs: "trim [NL, NL] = []" "trim [NL] = []"
  by (simp_all add: trim_eq_Nil_iff isWhiteSpace_def)

lemmas fixture_simps = fixture_heading fixture_bodyText fixture_seenText fixture_groups
  scenario_strings js_nonempty trim_append_nonblank bodyUpToHeading_Cons seenContent_def
  nonBlankSections_def defaultSection_def groupSection_def withFallback_cases
  fmt_textParagraph level_textParagraph trim_NLs

lemma scenarioA_sections:
  "extractSectionsFromBody (Some scenarioA) parentName =
     [\<lparr>title = parentName, content = js ''Intro text'' @ [NL], level = 1,
       parentTab = parentName, sourceDocument = None\<rparr>,
      \<lparr>title = js ''Setup'', content = js ''Step one'' @ [NL], level = 1,
       parentTab = parentName, sourceDocument = None\<rparr>,
      \<lparr>title = js ''Details'', content = js ''More info'' @ [NL], level = 2,
       parentTab = parentName, sourceDocument = None\<rparr>]"
  by (simp add: scenarioA_def extractSectionsFromBody_char fixture_simps renameSingle_def)

section \<open>Heading styles\<close>

lemma js_inj: "js a = js b \<longleftrightarrow> a = b"
proof -
  have "inj (\<lambda>c::char. (of_nat (of_char c) :: 16 word))"
  proof (rule injI)
    fix x y :: char
    assume "(of_nat (of_char x) :: 16 word) = of_nat (of_char y)"
    then have "take_bit 16 (of_char x :: nat) = take_bit 16 (of_char y :: nat)"
      by (simp add: word_of_nat_eq_iff)
    moreover have "(of_char c :: nat) < 2 ^ 16" for c
      by (rule less_trans [OF nat_of_char_less_256]) simp
    ultimately have "(of_char x :: nat) = of_char y" by (simp add: take_bit_nat_eq_self)
    then show "x = y" by simp
  qed
  then show ?thesis by (simp add: js_def inj_map_eq_map)
qed

lemma js_eq_Nil: "js a = [] \<longleftrightarrow> a = []" by (simp add: js_def)

lemma getHeadingLevel_styles:
  "namedStyle p = Some (js ''TITLE'') \<Longrightarrow> getHeadingLevel p = 1"
  "namedStyle p = Some (js ''SUBTITLE'') \<Longrightarrow> getHeadingLevel p = 2"
  "namedStyle p = Some (js ''HEADING_1'') \<Longrightarrow> getHeadingLevel p = 1"
  "namedStyle p = Some (js ''HEADING_2'') \<Longrightarrow> getHeadingLevel p = 2"
  by (auto simp: getHeadingLevel_def namedStyle_def js_inj js_eq_Nil split: option.splits)

lemma getHeadingLevel_unrecognized:
  "namedStyle p \<notin> {Some (js ''HEADING_1''), Some (js ''HEADING_2''), Some (js ''HEADING_3''),
                   Some (js ''HEADING_4''), Some (js ''HEADING_5''), Some (js ''HEADING_6''),
                   Some (js ''TITLE''), Some (js ''SUBTITLE'')} \<Longrightarrow> getHeadingLevel p = 0"
  by (auto simp: getHeadingLevel_def namedStyle_def split: option.splits)

lemma titleAsHeading_level: "getHeadingLevel (titleAsHeading p) = getHeadingLevel p"
proof -
  have a: "namedStyle (p\<lparr>paragraphStyle := Some \<lparr>namedStyleType = Some s\<rparr>\<rparr>) = Some s" for s
    by (simp add: namedStyle_def)
  show ?thesis
    by (simp add: titleAsHeading_def getHeadingLevel_styles a)
qed

lemma titleAsHeading_text:
  "extractFormattedTextFromParagraph (titleAsHeading p) = extractFormattedTextFromParagraph p"
  by (simp add: titleAsHeading_def extractFormattedTextFromParagraph_def getBulletInfo_def)

lemma processElement_titlesAsHeadings:
  "processElement pn st (titlesAsHeadings e) = processElement pn st e"
  by (cases e) (simp_all add: processElement_def titleAsHeading_level titleAsHeading_text Let_def)

lemma foldl_titlesAsHeadings:
  "foldl (processElement pn) st (map titlesAsHeadings es) = foldl (processElement pn) st es"
  by (induction es arbitrary: st) (simp_all add: processElement_titlesAsHeadings)

section \<open>Tab labels\<close>

lemma string_of_nat_nonempty: "string_of_nat n \<noteq> []"
  by (subst string_of_nat.simps) simp

lemma digit_eq_1: "n < 10 \<Longrightarrow> (of_nat n :: 16 word) = 1 \<longleftrightarrow> n = 1"
proof -
  assume "n < 10"
  then have "n < 2 ^ 16" by simp
  then have t: "take_bit 16 n = n" by (simp add: take_bit_nat_eq_self)
  have "(of_nat n :: 16 word) = of_nat 1 \<longleftrightarrow> take_bit LENGTH(16) n = take_bit LENGTH(16) (1::nat)"
    by (rule word_of_nat_eq_iff)
  then show ?thesis using t by simp
qed

lemma string_of_nat_eq_1: "string_of_nat n = js ''1'' \<longleftrightarrow> n = 1"
proof (cases "n < 10")
  case True
  then show ?thesis by (subst string_of_nat.simps) (simp add: js_def digit_eq_1)
next
  case False
  have "length (string_of_nat n) \<ge> 2"
    using False string_of_nat_nonempty[of "n div 10"]
    by (subst string_of_nat.simps) (cases "string_of_nat (n div 10)"; simp)
  moreover have "length (js ''1'') = 1" by (simp add: js_def)
  ultimately show ?thesis using False by auto
qed

lemma tabTitle_untitled: "untitled t \<Longrightarrow> tabTitle t i = js ''Tab '' @ string_of_nat (i + 1)"
  by (cases "tabProperties t"; cases "tab_title (the (tabProperties t))")
     (auto simp: untitled_def tabTitle_def)

lemma tabTitle_titled:
  "\<not> untitled t \<Longrightarrow> tab_title (the (tabProperties t)) = Some (tabTitle t i)"
  by (cases "tabProperties t"; cases "tab_title (the (tabProperties t))")
     (auto simp: untitled_def tabTitle_def)

lemma tabTitle_eq_Tab1:
  "tabTitle t i = js ''Tab 1'' \<longleftrightarrow> (untitled t \<and> i = 0) \<or> titledTab1 t"
proof (cases "untitled t")
  case True
  then have "\<not> titledTab1 t"
    by (auto simp: untitled_def titledTab1_def js_eq_Nil split: option.splits)
  moreover have "js ''Tab 1'' = js ''Tab '' @ js ''1''" by (simp add: js_def)
  ultimately show ?thesis using True by (simp add: tabTitle_untitled string_of_nat_eq_1)
next
  case False
  then show ?thesis using tabTitle_titled[OF False, of i]
    by (cases "tabProperties t") (auto simp: titledTab1_def untitled_def)
qed

lemma effectiveTabName_char:
  "effectiveTabName t i dt =
     (if ((untitled t \<and> i = 0) \<or> titledTab1 t) \<and> truthy dt then the dt else tabTitle t i)"
  by (cases dt) (auto simp: effectiveTabName_def tabTitle_eq_Tab1)

lemma allTabs_single:
  "childTabs t = None \<or> childTabs t = Some [] \<Longrightarrow> allTabs [t] = [t]"
  by (auto simp: allTabs_def)

section \<open>Whitespace normalisation\<close>

lemma nlRun_Nil [simp]: "nlRun [] = 0" by (simp add: nlRun_def)
lemma nlRun_Cons [simp]: "nlRun (a # s) = (if a = NL then Suc (nlRun s) else 0)"
  by (simp add: nlRun_def)

lemma nlRun_dropWhile [simp]: "nlRun (dropWhile (\<lambda>x. x = NL) s) = 0"
  by (induction s) simp_all

lemma nlRun_append_le: "nlRun xs \<le> nlRun (xs @ ys)"
  by (induction xs) simp_all

lemma noTripleNL_Cons:
  "noTripleNL (a # r) \<longleftrightarrow> (a = NL \<longrightarrow> nlRun r < 2) \<and> noTripleNL r"
proof (cases r)
  case Nil then show ?thesis by simp
next
  case (Cons b r')
  then show ?thesis by (cases r') auto
qed

lemma noTripleNL_append: "noTripleNL (xs @ ys) \<Longrightarrow> noTripleNL xs \<and> noTripleNL ys"
proof (induction xs)
  case Nil then show ?case by simp
next
  case (Cons a xs)
  then show ?case
    using nlRun_append_le[of xs ys] by (auto simp: noTripleNL_Cons)
qed

lemma collapseNewlines_Nil_iff [simp]: "collapseNewlines s = [] \<longleftrightarrow> s = []"
  by (induction s rule: collapseNewlines.induct) auto

lemma nlRun_collapseNewlines: "nlRun (collapseNewlines s) = min 2 (nlRun s)"
  by (induction s rule: collapseNewlines.induct) auto

lemma noTripleNL_collapseNewlines: "noTripleNL (collapseNewlines s)"
proof (induction s rule: collapseNewlines.induct)
  case (1 a b c cs)
  show ?case
  proof (cases "a = NL \<and> b = NL \<and> c = NL")
    case True
    with 1 have "noTripleNL (collapseNewlines (dropWhile (\<lambda>x. x = NL) cs))" by simp
    with True show ?thesis
      by (simp add: noTripleNL_Cons nlRun_collapseNewlines del: noTripleNL.simps)
  next
    case False
    with 1 have ih: "noTripleNL (collapseNewlines (b # c # cs))" by simp
    have e: "collapseNewlines (a # b # c # cs) = a # collapseNewlines (b # c # cs)"
      using False by auto
    have r: "a = NL \<longrightarrow> nlRun (b # c # cs) < 2" using False by auto
    show ?thesis
      unfolding e using ih r
      by (simp add: noTripleNL_Cons nlRun_collapseNewlines del: noTripleNL.simps collapseNewlines.simps)
  qed
qed simp_all

lemma collapseNewlines_fixed: "noTripleNL s \<Longrightarrow> collapseNewlines s = s"
  by (induction s rule: collapseNewlines.induct) auto

lemma spaceAfterPeriods_Nil_iff [simp]: "spaceAfterPeriods s = [] \<longleftrightarrow> s = []"
  by (induction s rule: spaceAfterPeriods.induct) auto

lemma hd_spaceAfterPeriods [simp]: "hd (spaceAfterPeriods s) = hd s"
  by (induction s rule: spaceAfterPeriods.induct) auto

lemma nlRun_spaceAfterPeriods [simp]: "nlRun (spaceAfterPeriods s) = nlRun s"
  by (induction s rule: spaceAfterPeriods.induct) auto

lemma isUpper_simps [simp]: "\<not> isUpper 0x20" "\<not> isUpper NL" "\<not> isUpper 0x2E" "\<not> isUpper 0x09"
  by (simp_all add: isUpper_def)

lemma isBlank_simps [simp]: "isBlank 0x20" "\<not> isBlank NL" "\<not> isBlank 0x2E"
  by (simp_all add: isBlank_def)

lemma isBlank_not_upper: "isBlank a \<Longrightarrow> \<not> isUpper a"
  by (auto simp: isBlank_def)

lemma isBlank_not_NL: "isBlank a \<Longrightarrow> a \<noteq> NL"
  by (auto simp: isBlank_def)

lemma isUpper_not_NL: "isUpper a \<Longrightarrow> a \<noteq> NL"
  by auto

lemma noTripleNL_spaceAfterPeriods: "noTripleNL s \<Longrightarrow> noTripleNL (spaceAfterPeriods s)"
proof (induction s rule: spaceAfterPeriods.induct)
  case (1 a b cs)
  show ?case
  proof (cases "a = 0x2E \<and> isUpper b")
    case True
    then have "b \<noteq> NL" by auto
    with 1 True show ?thesis by (auto simp: noTripleNL_Cons simp del: noTripleNL.simps)
  next
    case False
    with 1 show ?thesis by (auto simp: noTripleNL_Cons simp del: noTripleNL.simps)
  qed
qed simp_all

lemma noPeriodUpper_spaceAfterPeriods: "noPeriodUpper (spaceAfterPeriods s)"
  unfolding noPeriodUpper_def
  by (induction s rule: spaceAfterPeriods.induct) (auto simp: successively_Cons)

lemma spaceAfterPeriods_fixed: "noPeriodUpper s \<Longrightarrow> spaceAfterPeriods s = s"
  unfolding noPeriodUpper_def
  by (induction s rule: spaceAfterPeriods.induct) auto

lemma collapseSpaces_Nil_iff [simp]: "collapseSpaces s = [] \<longleftrightarrow> s = []"
  by (induction s rule: collapseSpaces.induct) auto

lemma hd_collapseSpaces:
  "s \<noteq> [] \<Longrightarrow> (if isBlank (hd s) then isBlank (hd (collapseSpaces s)) else hd (collapseSpaces s) = hd s)"
  by (induction s rule: collapseSpaces.induct) auto

lemma hd_dropWhile_blank: "dropWhile isBlank cs \<noteq> [] \<Longrightarrow> \<not> isBlank (hd (dropWhile isBlank cs))"
  by (rule hd_dropWhile)

lemma nlRun_collapseSpaces [simp]: "nlRun (collapseSpaces s) = nlRun s"
proof (induction s rule: collapseSpaces.induct)
  case (1 a b cs)
  then show ?case by (auto dest: isBlank_not_NL)
qed simp_all

lemma noTripleNL_dropWhile: "noTripleNL s \<Longrightarrow> noTripleNL (dropWhile P s)"
  using noTripleNL_append[of "takeWhile P s" "dropWhile P s"] by simp

lemma noTripleNL_collapseSpaces: "noTripleNL s \<Longrightarrow> noTripleNL (collapseSpaces s)"
proof (induction s rule: collapseSpaces.induct)
  case (1 a b cs)
  show ?case
  proof (cases "isBlank a \<and> isBlank b")
    case True
    from "1.prems" have "noTripleNL cs" by (simp add: noTripleNL_Cons del: noTripleNL.simps)
    then have "noTripleNL (dropWhile isBlank cs)" by (rule noTripleNL_dropWhile)
    with 1 True show ?thesis by (simp add: noTripleNL_Cons del: noTripleNL.simps)
  next
    case False
    with 1 show ?thesis by (auto simp: noTripleNL_Cons simp del: noTripleNL.simps)
  qed
qed simp_all

lemma successively_dropWhile: "successively R s \<Longrightarrow> successively R (dropWhile P s)"
  using successively_append_iff[of R "takeWhile P s" "dropWhile P s"] by simp

lemma noPeriodUpper_collapseSpaces: "noPeriodUpper s \<Longrightarrow> noPeriodUpper (collapseSpaces s)"
  unfolding noPeriodUpper_def
proof (induction s rule: collapseSpaces.induct)
  case (1 a b cs)
  show ?case
  proof (cases "isBlank a \<and> isBlank b")
    case True
    from "1.prems" have "successively (\<lambda>a b. \<not> (a = 0x2E \<and> isUpper b)) cs"
      by (auto simp: successively_Cons)
    then have "successively (\<lambda>a b. \<not> (a = 0x2E \<and> isUpper b)) (dropWhile isBlank cs)"
      by (rule successively_dropWhile)
    with 1 True show ?thesis by (simp add: successively_Cons)
  next
    case False
    have h: "isUpper (hd (collapseSpaces (b # cs))) \<Longrightarrow> isUpper b"
      using hd_collapseSpaces[of "b # cs"] by (auto dest: isBlank_not_upper split: if_splits)
    from False 1 show ?thesis by (auto simp: successively_Cons dest: h)
  qed
qed simp_all

lemma noBlankRun_collapseSpaces: "noBlankRun (collapseSpaces s)"
  unfolding noBlankRun_def
proof (induction s rule: collapseSpaces.induct)
  case (1 a b cs)
  show ?case
  proof (cases "isBlank a \<and> isBlank b")
    case True
    have "dropWhile isBlank cs \<noteq> [] \<Longrightarrow> \<not> isBlank (hd (collapseSpaces (dropWhile isBlank cs)))"
      using hd_collapseSpaces[of "dropWhile isBlank cs"] hd_dropWhile_blank[of cs] by auto
    with 1 True show ?thesis by (auto simp: successively_Cons)
  next
    case False
    have h: "isBlank (hd (collapseSpaces (b # cs))) \<Longrightarrow> isBlank b"
      using hd_collapseSpaces[of "b # cs"] by (auto split: if_splits)
    from False 1 show ?thesis by (auto simp: successively_Cons dest: h)
  qed
qed simp_all

lemma collapseSpaces_fixed: "noBlankRun s \<Longrightarrow> collapseSpaces s = s"
  unfolding noBlankRun_def
  by (induction s rule: collapseSpaces.induct) auto

lemma trim_infix: "\<exists>pre post. s = pre @ trim s @ post"
proof -
  let ?d = "dropWhile isWhiteSpace s"
  have "trim s @ rev (takeWhile isWhiteSpace (rev ?d)) =
        rev (takeWhile isWhiteSpace (rev ?d) @ dropWhile isWhiteSpace (rev ?d))"
    by (simp only: trim_def rev_append)
  also have "\<dots> = rev (rev ?d)" by (simp only: takeWhile_dropWhile_id)
  also have "\<dots> = ?d" by simp
  finally have d: "?d = trim s @ rev (takeWhile isWhiteSpace (rev ?d))" by (rule sym)
  have "s = takeWhile isWhiteSpace s @ ?d" by simp
  with d have "s = takeWhile isWhiteSpace s @ trim s @ rev (takeWhile isWhiteSpace (rev ?d))"
    by (simp del: takeWhile_dropWhile_id)
  then show ?thesis by blast
qed

lemma noTripleNL_trim: "noTripleNL s \<Longrightarrow> noTripleNL (trim s)"
proof -
  assume a: "noTripleNL s"
  obtain pre post where s: "s = pre @ trim s @ post" using trim_infix by blast
  from a have "noTripleNL (pre @ trim s @ post)" by (subst s[symmetric])
  then show ?thesis by (blast dest: noTripleNL_append)
qed

lemma successively_trim: "successively R s \<Longrightarrow> successively R (trim s)"
proof -
  assume a: "successively R s"
  obtain pre post where s: "s = pre @ trim s @ post" using trim_infix by blast
  from a have "successively R (pre @ trim s @ post)" by (subst s[symmetric])
  then show ?thesis by (simp add: successively_append_iff)
qed

lemma normalizeContent_normal:
  "noTripleNL (normalizeContent c) \<and> noPeriodUpper (normalizeContent c) \<and>
   noBlankRun (normalizeContent c) \<and> trim (normalizeContent c) = normalizeContent c"
proof -
  let ?a = "collapseNewlines (trim c)"
  let ?b = "spaceAfterPeriods ?a"
  let ?c = "collapseSpaces ?b"
  have a: "noTripleNL ?a" by (rule noTripleNL_collapseNewlines)
  then have b1: "noTripleNL ?b" by (rule noTripleNL_spaceAfterPeriods)
  have b2: "noPeriodUpper ?b" by (rule noPeriodUpper_spaceAfterPeriods)
  from b1 have c1: "noTripleNL ?c" by (rule noTripleNL_collapseSpaces)
  from b2 have c2: "noPeriodUpper ?c" by (rule noPeriodUpper_collapseSpaces)
  have c3: "noBlankRun ?c" by (rule noBlankRun_collapseSpaces)
  from c1 have "noTripleNL (trim ?c)" by (rule noTripleNL_trim)
  moreover from c2 have "noPeriodUpper (trim ?c)"
    unfolding noPeriodUpper_def by (rule successively_trim)
  moreover from c3 have "noBlankRun (trim ?c)"
    unfolding noBlankRun_def by (rule successively_trim)
  ultimately show ?thesis by (simp add: normalizeContent_def)
qed

lemma normalizeContent_fixed:
  "noTripleNL s \<Longrightarrow> noPeriodUpper s \<Longrightarrow> noBlankRun s \<Longrightarrow> trim s = s \<Longrightarrow> normalizeContent s = s"
  by (simp add: normalizeContent_def collapseNewlines_fixed spaceAfterPeriods_fixed collapseSpaces_fixed)

lemma isWhiteSpace_NL [simp]: "isWhiteSpace NL" by (simp add: isWhiteSpace_def)
lemma isBlank_isWhiteSpace: "isBlank x \<Longrightarrow> isWhiteSpace x"
  by (auto simp: isBlank_def isWhiteSpace_def)

lemma set_collapseNewlines: "x \<in> set s \<Longrightarrow> x \<noteq> NL \<Longrightarrow> x \<in> set (collapseNewlines s)"
proof (induction s rule: collapseNewlines.induct)
  case (1 a b c cs)
  show ?case
  proof (cases "a = NL \<and> b = NL \<and> c = NL")
    case True
    with "1.prems" have "x \<in> set cs" by auto
    then have "x \<in> set (takeWhile (\<lambda>x. x = NL) cs @ dropWhile (\<lambda>x. x = NL) cs)" by simp
    with "1.prems" have "x \<in> set (dropWhile (\<lambda>x. x = NL) cs)"
      by (auto simp del: takeWhile_dropWhile_id dest: set_takeWhileD)
    with 1 True show ?thesis by simp
  next
    case False
    with 1 show ?thesis by auto
  qed
qed simp_all

lemma set_spaceAfterPeriods: "x \<in> set s \<Longrightarrow> x \<in> set (spaceAfterPeriods s)"
  by (induction s rule: spaceAfterPeriods.induct) auto

lemma set_collapseSpaces: "x \<in> set s \<Longrightarrow> \<not> isBlank x \<Longrightarrow> x \<in> set (collapseSpaces s)"
proof (induction s rule: collapseSpaces.induct)
  case (1 a b cs)
  show ?case
  proof (cases "isBlank a \<and> isBlank b")
    case True
    with "1.prems" have "x \<in> set cs" by auto
    then have "x \<in> set (takeWhile isBlank cs @ dropWhile isBlank cs)" by simp
    with "1.prems" have "x \<in> set (dropWhile isBlank cs)"
      by (auto simp del: takeWhile_dropWhile_id dest: set_takeWhileD)
    with 1 True show ?thesis by simp
  next
    case False
    with 1 show ?thesis by auto
  qed
qed simp_all

lemma normalizeContent_Nil_iff: "normalizeContent c = [] \<longleftrightarrow> trim c = []"
proof
  assume "trim c = []"
  then show "normalizeContent c = []" by (simp add: normalizeContent_def)
next
  assume n: "normalizeContent c = []"
  show "trim c = []"
  proof (rule ccontr)
    assume "trim c \<noteq> []"
    then have "trim (trim c) \<noteq> []" by simp
    then obtain x where x: "x \<in> set (trim c)" "\<not> isWhiteSpace x"
      unfolding trim_eq_Nil_iff by blast
    then have "x \<noteq> NL" "\<not> isBlank x" by (auto dest: isBlank_isWhiteSpace)
    with x have "x \<in> set (collapseSpaces (spaceAfterPeriods (collapseNewlines (trim c))))"
      by (intro set_collapseSpaces set_spaceAfterPeriods set_collapseNewlines)
    with x have "trim (collapseSpaces (spaceAfterPeriods (collapseNewlines (trim c)))) \<noteq> []"
      by (auto simp: trim_eq_Nil_iff)
    with n show False by (simp add: normalizeContent_def)
  qed
qed

lemma endsWith_NL: "endsWith s [NL] \<longleftrightarrow> s \<noteq> [] \<and> last s = NL"
  by (cases s rule: rev_cases) (auto simp: endsWith_def startsWith_def)

lemma endsWith_NLNL: "endsWith (s @ [a, b]) [NL, NL] \<longleftrightarrow> a = NL \<and> b = NL"
  by (auto simp: endsWith_def startsWith_def)

lemma last_normalizeContent: "normalizeContent c \<noteq> [] \<Longrightarrow> \<not> isWhiteSpace (last (normalizeContent c))"
  unfolding normalizeContent_def by (rule trim_ends)

lemma headerPrefix_level: "headerPrefix l = repeat (js ''#'') (min (max l 1) 6)"
proof -
  have "(if l = 0 then 1 else l) = max l 1" by auto
  then show ?thesis by (simp only: headerPrefix_def)
qed

section \<open>Folder processing, one member at a time, and scenario values\<close>

lemma processMember_append: "processMember fetch all d = all @ memberEntries fetch d"
  by (simp add: processMember_def memberEntries_def split: sum.split)

lemma foldl_processMember:
  "foldl (processMember fetch) all docs = all @ concat (map (memberEntries fetch) docs)"
proof (induction docs arbitrary: all)
  case Nil then show ?case by simp
next
  case (Cons d docs)
  show ?case by (simp add: Cons.IH processMember_append[of fetch all d])
qed

lemma memberEntries_nonempty: "memberEntries fetch d \<noteq> []"
  by (auto simp: memberEntries_def processMember_def split: sum.split)

lemma memberEntries_error:
  "fetchDocument fetch (file_id d) = Inl msg \<Longrightarrow> memberEntries fetch d = [errorSection d msg]"
  by (simp add: memberEntries_def processMember_def processDocumentById_def)

lemma memberEntries_source:
  "file_name d \<noteq> [] \<Longrightarrow> s \<in> set (memberEntries fetch d) \<Longrightarrow> sourceDocument s = Some (file_name d)"
  by (auto simp: memberEntries_def processMember_def processDocumentById_def emptyDocumentSection_def
      errorSection_def Let_def split: sum.splits if_splits)

lemma length_concat_ge:
  "(\<And>x. x \<in> set xs \<Longrightarrow> f x \<noteq> []) \<Longrightarrow> length xs \<le> length (concat (map f xs))"
proof (induction xs)
  case Nil then show ?case by simp
next
  case (Cons x xs)
  then have "length xs \<le> length (concat (map f xs))" by simp
  moreover have "1 \<le> length (f x)" using Cons.prems[of x] by (cases "f x") simp_all
  ultimately show ?case by simp
qed

lemma page_title_create [simp]: "page_title (createNotionPageFromSection s) = title s"
  by (simp add: createNotionPageFromSection_def Let_def)

lemma page_source_create [simp]: "page_sourceDocument (createNotionPageFromSection s) = sourceDocument s"
  by (simp add: createNotionPageFromSection_def Let_def)

lemma trim_Hello: "trim (js ''Hello'') = js ''Hello''"
  by (rule trim_js_fixed; simp add: js_def isWhiteSpace_def)

lemma hello_sections:
  "\<not> startsWith pn (js ''Tab '') \<Longrightarrow>
   extractSectionsFromBody (Some \<lparr>body_content = Some [normalText (js ''Hello'')]\<rparr>) pn =
     [\<lparr>title = pn, content = js ''Hello'' @ [NL], level = 1, parentTab = pn, sourceDocument = None\<rparr>]"
  by (simp add: extractSectionsFromBody_char fixture_simps renameSingle_def trim_Hello)

lemma not_Tab_Notes: "\<not> startsWith (js ''Notes'') (js ''Tab '')"
  by (simp add: startsWith_def js_def)

lemma scenarioD_entries:
  "memberEntries scenarioD_fetch \<lparr>file_id = js ''id1'', file_name = js ''One''\<rparr> =
     [\<lparr>title = js ''Notes'', content = js ''Hello'' @ [NL], level = 1, parentTab = js ''Notes'',
       sourceDocument = Some (js ''One'')\<rparr>]"
  "fetchDocument scenarioD_fetch (js ''id2'') = Inl (js ''not-found'')"
  "memberEntries scenarioD_fetch \<lparr>file_id = js ''id3'', file_name = js ''Three''\<rparr> =
     [\<lparr>title = js ''Notes'', content = js ''Hello'' @ [NL], level = 1, parentTab = js ''Notes'',
       sourceDocument = Some (js ''Three'')\<rparr>]"
  by (simp_all add: memberEntries_def processMember_def processDocumentById_def fetchDocument_def
      scenarioD_fetch_def js_inj js_eq_Nil extractSectionsFromGoogleDoc_def hello_sections not_Tab_Notes)

lemma normalize_Step_one: "normalizeContent (js ''Step one'' @ [NL]) = js ''Step one''"
  by (simp add: normalizeContent_def trim_def js_def isWhiteSpace_def isBlank_def isUpper_def)

lemma string_of_nat_2: "string_of_nat (Suc (Suc 0)) = js ''2''"
  by (simp add: string_of_nat.simps js_def)

lemma not_Tab_Handbook: "\<not> startsWith (js ''Handbook'') (js ''Tab '')"
  by (simp add: startsWith_def js_def)

section \<open>The sections the converter builds, and their pages\<close>

lemma renameSingle_map:
  "map content (renameSingle pn secs) = map content secs"
  "map level (renameSingle pn secs) = map level secs"
  by (auto simp: renameSingle_def split: list.splits)

lemma traversalSections_contents:
  "map content (traversalSections pn es) =
     filter (\<lambda>c. trim c \<noteq> []) (bodyUpToHeading es # map snd (headingGroups es))"
proof -
  have "map content (map (groupSection pn) (headingGroups es)) = map snd (headingGroups es)"
    by (simp add: groupSection_def comp_def)
  then have h: "map content (defaultSection pn (bodyUpToHeading es) # map (groupSection pn) (headingGroups es)) =
      bodyUpToHeading es # map snd (headingGroups es)"
    by (simp add: defaultSection_def)
  have g: "map content (filter (\<lambda>s. trim (content s) \<noteq> []) xs) =
      filter (\<lambda>c. trim c \<noteq> []) (map content xs)" for xs
    by (induction xs) auto
  show ?thesis
    unfolding traversalSections_char nonBlankSections_def by (simp only: g h)
qed

lemma extractSectionsFromBody_contents:
  "map content (extractSectionsFromBody (Some \<lparr>body_content = Some es\<rparr>) pn) =
     (if traversalSections pn es = []
      then (if trim (seenContent es) = [] then [] else [trim (seenContent es)])
      else filter (\<lambda>c. trim c \<noteq> []) (bodyUpToHeading es # map snd (headingGroups es)))"
  by (simp add: extractSectionsFromBody_def renameSingle_map withFallback_cases allContent_traverse
      traversalSections_contents defaultSection_def)

lemma extractSectionsFromBody_nonblank:
  assumes a: "s \<in> set (extractSectionsFromBody b pn)"
  shows "trim (content s) \<noteq> [] \<and> (last (content s) = NL \<or> trim (content s) = content s)"
proof -
  from a have "b \<noteq> None" by (auto simp: extractSectionsFromBody_def)
  then obtain bd where bd: "b = Some bd" by auto
  with a have "body_content bd \<noteq> None"
    by (cases "body_content bd") (auto simp: extractSectionsFromBody_def)
  then obtain es where "body_content bd = Some es" by auto
  with bd have b: "b = Some bd" "body_content bd = Some es" by simp_all
  from a b obtain s' where s': "s' \<in> set (withFallback pn (allContent (traverse pn es)) (traversalSections pn es))"
    and c: "content s = content s'"
    using renameSingle_content by (fastforce simp: extractSectionsFromBody_def)
  show ?thesis
  proof (cases "traversalSections pn es = []")
    case True
    with s' have "trim (allContent (traverse pn es)) \<noteq> []" and "s' = defaultSection pn (trim (allContent (traverse pn es)))"
      by (auto simp: withFallback_cases split: if_splits)
    then show ?thesis using c by (simp add: defaultSection_def)
  next
    case False
    with s' have "s' \<in> set (traversalSections pn es)" by (simp add: withFallback_cases)
    then show ?thesis using c traversalSections_content by simp
  qed
qed

lemma extractSectionsFromBody_ends_NL:
  assumes "traversalSections pn es \<noteq> []"
    and a: "s \<in> set (extractSectionsFromBody (Some \<lparr>body_content = Some es\<rparr>) pn)"
  shows "last (content s) = NL"
proof -
  from a obtain s' where s': "s' \<in> set (withFallback pn (allContent (traverse pn es)) (traversalSections pn es))"
    and c: "content s = content s'"
    using renameSingle_content by (fastforce simp: extractSectionsFromBody_def)
  with assms(1) have "s' \<in> set (traversalSections pn es)" by (simp add: withFallback_cases)
  then show ?thesis using c traversalSections_content by simp
qed

lemma trim_normalizeContent: "trim (normalizeContent c) = normalizeContent c"
  by (simp add: normalizeContent_def)

lemma normalizeContent_ends:
  "normalizeContent c \<noteq> [] \<Longrightarrow>
   \<not> isWhiteSpace (hd (normalizeContent c)) \<and> \<not> isWhiteSpace (last (normalizeContent c))"
  unfolding normalizeContent_def using trim_ends by blast

lemma headingGroups_level:
  "g \<in> set (headingGroups es) \<Longrightarrow> 0 < getHeadingLevel (fst g)"
  by (induction es rule: headingGroups.induct) (auto simp: isHeadingElement_def split: if_splits)

lemma getHeadingLevel_le_6: "getHeadingLevel p \<le> 6"
  by (simp add: getHeadingLevel_def split: option.splits)

lemma traversalSections_level:
  assumes "s \<in> set (traversalSections pn es)"
  shows "1 \<le> level s \<and> level s \<le> 6"
proof -
  from assms
  have "s \<in> set (filter (\<lambda>s. trim (content s) \<noteq> [])
                 (defaultSection pn (bodyUpToHeading es) # map (groupSection pn) (headingGroups es)))"
    by (simp only: traversalSections_char nonBlankSections_def)
  then have "s = defaultSection pn (bodyUpToHeading es) \<or> s \<in> groupSection pn ` set (headingGroups es)"
    unfolding set_filter by auto
  then show ?thesis
  proof
    assume "s = defaultSection pn (bodyUpToHeading es)"
    then show ?thesis by (simp add: defaultSection_def)
  next
    assume "s \<in> groupSection pn ` set (headingGroups es)"
    then obtain g where g: "g \<in> set (headingGroups es)" "s = groupSection pn g" by auto
    then show ?thesis
      using headingGroups_level[OF g(1)] getHeadingLevel_le_6[of "fst g"]
      by (simp add: groupSection_def)
  qed
qed

lemma extractSectionsFromBody_level:
  assumes a: "s \<in> set (extractSectionsFromBody b pn)"
  shows "1 \<le> level s \<and> level s \<le> 6"
proof -
  from a have "b \<noteq> None" by (auto simp: extractSectionsFromBody_def)
  then obtain bd where bd: "b = Some bd" by auto
  with a have "body_content bd \<noteq> None"
    by (cases "body_content bd") (auto simp: extractSectionsFromBody_def)
  then obtain es where "body_content bd = Some es" by auto
  with bd have b: "b = Some bd" "body_content bd = Some es" by simp_all
  from a b obtain s' where s': "s' \<in> set (withFallback pn (allContent (traverse pn es)) (traversalSections pn es))"
    and c: "level s = level s'"
    using renameSingle_content by (fastforce simp: extractSectionsFromBody_def)
  show ?thesis
  proof (cases "traversalSections pn es = []")
    case True
    with s' have "s' = defaultSection pn (trim (allContent (traverse pn es)))"
      by (auto simp: withFallback_cases split: if_splits)
    then show ?thesis using c by (simp add: defaultSection_def)
  next
    case False
    with s' have "s' \<in> set (traversalSections pn es)" by (simp add: withFallback_cases)
    then show ?thesis using c traversalSections_level by simp
  qed
qed

lemma foldl_append_concat:
  "foldl (\<lambda>acc x. acc @ f x) acc xs = acc @ concat (map f xs)"
  by (induction xs arbitrary: acc) simp_all

lemma extractSectionsFromTab_mem:
  "s \<in> set (extractSectionsFromTab t i dt) \<Longrightarrow> \<exists>b pn. s \<in> set (extractSectionsFromBody b pn)"
  by (auto simp: extractSectionsFromTab_def split: option.splits)

lemma extractSectionsFromGoogleDoc_tabs:
  "tabs doc = Some ts \<Longrightarrow> ts \<noteq> [] \<Longrightarrow>
   extractSectionsFromGoogleDoc doc =
     concat (map (\<lambda>(i, t). extractSectionsFromTab t i (doc_title doc)) (enumerate 0 (allTabs ts)))"
proof -
  assume a: "tabs doc = Some ts" "ts \<noteq> []"
  have "(\<lambda>secs (tabIndex, t). secs @ extractSectionsFromTab t tabIndex (doc_title doc)) =
        (\<lambda>secs x. secs @ (\<lambda>(i, t). extractSectionsFromTab t i (doc_title doc)) x)"
    by (auto simp: fun_eq_iff)
  then show ?thesis
    using a by (simp add: extractSectionsFromGoogleDoc_def foldl_append_concat)
qed

lemma extractSectionsFromGoogleDoc_mem:
  assumes "s \<in> set (extractSectionsFromGoogleDoc doc)"
  shows "\<exists>b pn. s \<in> set (extractSectionsFromBody b pn)"
proof (cases "\<exists>ts. tabs doc = Some ts \<and> ts \<noteq> []")
  case True
  then obtain ts where ts: "tabs doc = Some ts" "ts \<noteq> []" by blast
  from assms obtain i t where "s \<in> set (extractSectionsFromTab t i (doc_title doc))"
    unfolding extractSectionsFromGoogleDoc_tabs[OF ts] by auto
  then show ?thesis by (rule extractSectionsFromTab_mem)
next
  case False
  with assms show ?thesis
    by (auto simp: extractSectionsFromGoogleDoc_def split: option.splits if_splits)
qed

lemma pageAsClaimed_if:
  assumes nb: "trim (content s) \<noteq> []" and lv: "1 \<le> level s"
  shows "pageAsClaimed s"
proof -
  from nb have n: "normalizeContent (content s) \<noteq> []" by (simp add: normalizeContent_Nil_iff)
  then have l: "last (normalizeContent (content s)) \<noteq> NL"
    using last_normalizeContent[of "content s"] by auto
  obtain ys y where y: "normalizeContent (content s) = ys @ [y]"
    using n by (cases "normalizeContent (content s)" rule: rev_cases) auto
  with l have yn: "y \<noteq> NL" by simp
  from lv have m: "max (level s) (Suc 0) = level s" by simp
  have p: "page_content (createNotionPageFromSection s) =
      repeat (js ''#'') (min (level s) 6) @ js '' '' @ title s @ [NL, NL] @
        normalizeContent (content s) @ [NL]"
    using n l by (simp add: createNotionPageFromSection_def Let_def endsWith_NL headerPrefix_level m)
  have e1: "endsWith (page_content (createNotionPageFromSection s)) [NL]"
    by (simp add: p endsWith_NL)
  have "page_content (createNotionPageFromSection s) =
      (repeat (js ''#'') (min (level s) 6) @ js '' '' @ title s @ [NL, NL] @ ys) @ [y, NL]"
    by (simp add: p y)
  then have e2: "\<not> endsWith (page_content (createNotionPageFromSection s)) [NL, NL]"
    using yn by (simp only: endsWith_NLNL) simp
  show ?thesis unfolding pageAsClaimed_def using n l e1 e2 p by simp
qed

lemma fixed_texts_nonblank:
  "trim (content (emptyDocumentSection d)) \<noteq> []"
  "trim (content (errorSection d msg)) \<noteq> []"
proof -
  have a: "trim (js ''T'') \<noteq> []" "trim (js ''F'') \<noteq> []"
    by (simp_all add: js_Cons trim_Cons_nonblank isWhiteSpace_def)
  have "js ''This document appears to be empty or contains no recognizable content.'' =
        js ''T'' @ js ''his document appears to be empty or contains no recognizable content.''"
    by (simp add: js_append[symmetric])
  then show "trim (content (emptyDocumentSection d)) \<noteq> []"
    using a(1) by (simp add: emptyDocumentSection_def trim_append_nonblank)
  have "js ''Failed to process this document: '' = js ''F'' @ js ''ailed to process this document: ''"
    by (simp add: js_append[symmetric])
  then show "trim (content (errorSection d msg)) \<noteq> []"
    using a(2) by (simp add: errorSection_def trim_append_nonblank)
qed

lemma memberEntries_cases:
  assumes "s \<in> set (memberEntries fetch d)"
  shows "\<exists>s'. content s = content s' \<and> level s = level s' \<and>
           (s' = emptyDocumentSection d \<or> (\<exists>msg. s' = errorSection d msg) \<or>
            (\<exists>doc. s' \<in> set (extractSectionsFromGoogleDoc doc)))"
proof (cases "fetchDocument fetch (file_id d)")
  case (Inl msg)
  with assms have "s = errorSection d msg"
    by (simp add: memberEntries_def processMember_def processDocumentById_def)
  then show ?thesis by blast
next
  case (Inr doc)
  show ?thesis
  proof (cases "extractSectionsFromGoogleDoc doc = []")
    case True
    with Inr assms have "s = emptyDocumentSection d"
      by (simp add: memberEntries_def processMember_def processDocumentById_def Let_def)
    then show ?thesis by blast
  next
    case False
    with Inr assms obtain s' n where "s' \<in> set (extractSectionsFromGoogleDoc doc)"
      "s = s'\<lparr>sourceDocument := Some n\<rparr>"
      by (auto simp: memberEntries_def processMember_def processDocumentById_def Let_def)
    then have "content s = content s' \<and> level s = level s' \<and> s' \<in> set (extractSectionsFromGoogleDoc doc)"
      by simp
    then show ?thesis by blast
  qed
qed

lemma built_sections_ok:
  "s \<in> set (extractSectionsFromGoogleDoc doc) \<Longrightarrow> trim (content s) \<noteq> [] \<and> 1 \<le> level s"
  using extractSectionsFromGoogleDoc_mem extractSectionsFromBody_nonblank extractSectionsFromBody_level
  by blast

lemma member_sections_ok:
  assumes "s \<in> set (memberEntries fetch d)"
  shows "trim (content s) \<noteq> [] \<and> 1 \<le> level s"
proof -
  from memberEntries_cases[OF assms] obtain s' where c: "content s = content s'" "level s = level s'"
    and k: "s' = emptyDocumentSection d \<or> (\<exists>msg. s' = errorSection d msg) \<or>
            (\<exists>doc. s' \<in> set (extractSectionsFromGoogleDoc doc))" by blast
  from k have "trim (content s') \<noteq> [] \<and> 1 \<le> level s'"
  proof (elim disjE exE)
    assume "s' = emptyDocumentSection d"
    then show ?thesis using fixed_texts_nonblank(1)[of d] by (simp add: emptyDocumentSection_def)
  next
    fix msg assume "s' = errorSection d msg"
    then show ?thesis using fixed_texts_nonblank(2)[of d msg] by (simp add: errorSection_def)
  next
    fix doc assume "s' \<in> set (extractSectionsFromGoogleDoc doc)"
    then show ?thesis by (rule built_sections_ok)
  qed
  with c show ?thesis by simp
qed

lemma allTabs_flattenTabs: "allTabs ts = flattenTabs ts"
proof -
  have "(\<lambda>acc mainTab. acc @ [mainTab] @
          (case childTabs mainTab of None \<Rightarrow> [] | Some cs \<Rightarrow> if length cs > 0 then cs else [])) =
        (\<lambda>acc t. acc @ (\<lambda>t. t # childrenOf t) t)"
    by (auto simp: fun_eq_iff childrenOf_def split: option.splits)
  then show ?thesis
    by (simp add: allTabs_def flattenTabs_def foldl_append_concat)
qed

lemma extractSectionsFromTab_label:
  "extractSectionsFromTab t i dt =
     (case tabBody t of None \<Rightarrow> [] | Some b \<Rightarrow> extractSectionsFromBody (Some b) (effectiveTabName t i dt))"
  by (simp add: extractSectionsFromTab_def)

lemma hello_sections_Tab:
  "extractSectionsFromBody (Some \<lparr>body_content = Some [normalText (js ''Hello'')]\<rparr>) (js ''Tab '' @ n) =
     [\<lparr>title = js ''Document '' @ n, content = js ''Hello'' @ [NL], level = 1,
       parentTab = js ''Tab '' @ n, sourceDocument = None\<rparr>]"
proof -
  have b: "startsWith (js ''Tab '' @ n) (js ''Tab '')" by (simp add: startsWith_def)
  have "length (js ''Tab '') = 4" by (simp add: js_def)
  then have c: "replaceFirst (js ''Tab '') (js ''Document '') (js ''Tab '' @ n) = js ''Document '' @ n"
    by (simp add: replaceFirst_Tab[OF b])
  show ?thesis
    by (simp add: extractSectionsFromBody_char fixture_simps renameSingle_def trim_Hello b c)
qed

lemma string_of_nat_3: "string_of_nat (Suc (Suc (Suc 0))) = js ''3''"
  by (simp add: string_of_nat.simps js_def)

lemma nonBlankSections_drop_empty:
  "nonBlankSections (defaultSection pn [] # xs) = nonBlankSections xs"
  by (simp add: nonBlankSections_def defaultSection_def)

lemma opens_section:
  assumes nb: "trim (extractFormattedTextFromParagraph p) \<noteq> []" and lv: "0 < getHeadingLevel p"
  shows "processElement pn st (Paragraph p) =
           \<lparr>sections = pushCurrent st,
            currentSection =
              Some \<lparr>title = trim (extractFormattedTextFromParagraph p), content = [],
                    level = getHeadingLevel p, parentTab = pn, sourceDocument = None\<rparr>,
            allContent = allContent st @ extractFormattedTextFromParagraph p @ [NL]\<rparr> \<and>
         traversalSections pn (Paragraph p # es) =
           nonBlankSections
             (\<lparr>title = trim (extractFormattedTextFromParagraph p), content = bodyUpToHeading es,
               level = getHeadingLevel p, parentTab = pn, sourceDocument = None\<rparr> #
              map (groupSection pn) (headingGroups es))"
proof -
  have h: "isHeadingElement (Paragraph p)" using nb lv by (simp add: isHeadingElement_def)
  have "traversalSections pn (Paragraph p # es) =
      nonBlankSections (defaultSection pn [] # groupSection pn (p, bodyUpToHeading es) #
                        map (groupSection pn) (headingGroups es))"
    using h by (simp add: traversalSections_char bodyUpToHeading_Cons)
  then show ?thesis
    using processElement_heading[OF nb lv, of pn st]
    by (simp add: nonBlankSections_drop_empty groupSection_def headingSection_def)
qed

section \<open>Claims\<close>

text \<open>
  C1 (as the code has it). For the body of Scenario A the segmenter yields three sections, not
  two: the leading "Intro text" becomes a default section of level 1 titled after the parent
  label, followed by the sections "Setup" (level 1, content "Step one" and a line feed) and
  "Details" (level 2, content "More info" and a line feed).
\<close>

theorem scenarioA_three_sections:
  "extractSectionsFromBody (Some scenarioA) parentName =
     [\<lparr>title = parentName, content = js ''Intro text'' @ [NL], level = 1,
       parentTab = parentName, sourceDocument = None\<rparr>,
      \<lparr>title = js ''Setup'', content = js ''Step one'' @ [NL], level = 1,
       parentTab = parentName, sourceDocument = None\<rparr>,
      \<lparr>title = js ''Details'', content = js ''More info'' @ [NL], level = 2,
       parentTab = parentName, sourceDocument = None\<rparr>] \<and>
   length (extractSectionsFromBody (Some scenarioA) parentName) = 3"
  by (simp add: scenarioA_sections)

text \<open>
  C1 as stated fails: with the parent label "Guide" the result is not the two sections
  "Setup" and "Details" alone.
\<close>

theorem scenarioA_not_two_sections:
  "extractSectionsFromBody (Some scenarioA) (js ''Guide'') \<noteq>
     [\<lparr>title = js ''Setup'', content = js ''Step one'' @ [NL], level = 1,
       parentTab = js ''Guide'', sourceDocument = None\<rparr>,
      \<lparr>title = js ''Details'', content = js ''More info'' @ [NL], level = 2,
       parentTab = js ''Guide'', sourceDocument = None\<rparr>] \<and>
   length (extractSectionsFromBody (Some scenarioA) (js ''Guide'')) \<noteq> 2"
  by (simp add: scenarioA_sections)

text \<open>
  C5. When a link with a non-empty URL is present, the link wrap is the outermost one, around
  the text formatted without the link; the other wraps nest in the fixed order bold, italic,
  underline, strikethrough (bold innermost); and the bold text "hi" linked to "https://x"
  renders as "[**hi**](https://x)".
\<close>

theorem applyTextFormatting_link_outermost:
  "(link st = Some l \<and> url l = Some u \<and> u \<noteq> [] \<longrightarrow>
      applyTextFormatting text st =
        js ''['' @ applyTextFormatting text (st\<lparr>link := None\<rparr>) @ js '']('' @ u @ js '')'') \<and>
   applyTextFormatting text (st\<lparr>link := None\<rparr>) =
     wrapIf (strikethrough st) (js ''~~'') (js ''~~'')
       (wrapIf (underline st) (js ''<u>'') (js ''</u>'')
         (wrapIf (italic st) (js ''*'') (js ''*'')
           (wrapIf (bold st) (js ''**'') (js ''**'') text))) \<and>
   applyTextFormatting (js ''hi'')
     \<lparr>bold = True, italic = False, underline = False, strikethrough = False,
      link = Some \<lparr>url = Some (js ''https://x'')\<rparr>\<rparr> = js ''[**hi**](https://x)''"
  by (simp add: applyTextFormatting_def wrapIf_def Let_def js_def)

theorem applyTextFormatting_link_outermost_witness:
  "applyTextFormatting (js ''hi'')
     \<lparr>bold = True, italic = True, underline = False, strikethrough = False,
      link = Some \<lparr>url = Some (js ''https://x'')\<rparr>\<rparr> =
   js ''['' @ js ''*'' @ js ''**'' @ js ''hi'' @ js ''**'' @ js ''*'' @ js '']('' @
     js ''https://x'' @ js '')''"
  using applyTextFormatting_link_outermost
    [of "\<lparr>bold = True, italic = True, underline = False, strikethrough = False,
          link = Some \<lparr>url = Some (js ''https://x'')\<rparr>\<rparr>"
        "\<lparr>url = Some (js ''https://x'')\<rparr>" "js ''https://x''" "js ''hi''"]
  by (simp add: wrapIf_def js_def)

text \<open>
  C2 (as the code has it). A heading paragraph counts when its formatted text is not blank; a
  heading paragraph with blank text is skipped like every blank paragraph. For every sequence
  of block elements with N (N at least 1) such heading paragraphs in which nothing non-blank
  precedes the first of them and each is followed by non-blank body text before the next one
  or the end, the segmenter emits exactly N sections, one per counted heading and in order:
  the title is the heading's formatted text trimmed, the level is the heading's level, the
  content is the body text up to the next counted heading, so the body text after the last
  one is the content of the Nth section. Excepted is the case of a single counted heading
  whose title equals a parent label that starts with "Tab ", where the title is renamed.
\<close>

theorem one_section_per_heading:
  assumes lead: "trim (bodyUpToHeading es) = []"
    and bodies: "\<forall>g\<in>set (headingGroups es). trim (snd g) \<noteq> []"
    and n: "1 \<le> length (filter isHeadingElement es)"
    and norename: "\<not> (length (filter isHeadingElement es) = 1 \<and> startsWith pn (js ''Tab '') \<and>
                     trim (extractFormattedTextFromParagraph (fst (hd (headingGroups es)))) = pn)"
  shows "extractSectionsFromBody (Some \<lparr>body_content = Some es\<rparr>) pn =
           map (groupSection pn) (headingGroups es) \<and>
         map (Paragraph \<circ> fst) (headingGroups es) = filter isHeadingElement es \<and>
         length (extractSectionsFromBody (Some \<lparr>body_content = Some es\<rparr>) pn) =
           length (filter isHeadingElement es) \<and>
         content (last (extractSectionsFromBody (Some \<lparr>body_content = Some es\<rparr>) pn)) =
           concat (map bodyText (afterLastHeading es))"
proof -
  let ?g = "headingGroups es"
  have len: "length ?g = length (filter isHeadingElement es)"
    using arg_cong[OF headingGroups_filter[of es], of length] by simp
  with n have ne: "?g \<noteq> []" by auto
  have "filter (\<lambda>s. trim (content s) \<noteq> []) (map (groupSection pn) ?g) = map (groupSection pn) ?g"
    using bodies by (simp add: filter_id_conv groupSection_def)
  with lead have t: "traversalSections pn es = map (groupSection pn) ?g"
    by (simp add: traversalSections_char nonBlankSections_def defaultSection_def)
  have "title (hd (map (groupSection pn) ?g)) = trim (extractFormattedTextFromParagraph (fst (hd ?g)))"
    using ne by (simp add: hd_map groupSection_def)
  with norename len have "renameSingle pn (map (groupSection pn) ?g) = map (groupSection pn) ?g"
    by (intro renameSingle_id) auto
  with t ne have r: "extractSectionsFromBody (Some \<lparr>body_content = Some es\<rparr>) pn = map (groupSection pn) ?g"
    by (simp add: extractSectionsFromBody_def withFallback_cases)
  have "content (last (map (groupSection pn) ?g)) = snd (last ?g)"
    using ne by (simp add: last_map groupSection_def)
  with r len ne show ?thesis
    by (simp add: headingGroups_filter last_headingGroups del: map_map)
qed

theorem one_section_per_heading_witness:
  "extractSectionsFromBody
     (Some \<lparr>body_content = Some [heading1 (js ''Setup''), normalText (js ''Step one''),
                                 heading2 (js ''Details''), normalText (js ''More info'')]\<rparr>)
     (js ''Guide'') =
   [\<lparr>title = js ''Setup'', content = js ''Step one'' @ [NL], level = 1,
     parentTab = js ''Guide'', sourceDocument = None\<rparr>,
    \<lparr>title = js ''Details'', content = js ''More info'' @ [NL], level = 2,
     parentTab = js ''Guide'', sourceDocument = None\<rparr>]"
proof -
  let ?es = "[heading1 (js ''Setup''), normalText (js ''Step one''),
              heading2 (js ''Details''), normalText (js ''More info'')]"
  have g: "headingGroups ?es =
      [(textParagraph (Some (js ''HEADING_1'')) (js ''Setup''), js ''Step one'' @ [NL]),
       (textParagraph (Some (js ''HEADING_2'')) (js ''Details''), js ''More info'' @ [NL])]"
    by (simp add: fixture_simps)
  have 1: "trim (bodyUpToHeading ?es) = []" by (simp add: fixture_simps)
  have 2: "\<forall>g\<in>set (headingGroups ?es). trim (snd g) \<noteq> []" by (simp add: g fixture_simps)
  have 3: "1 \<le> length (filter isHeadingElement ?es)" by (simp add: fixture_simps)
  have 4: "\<not> (length (filter isHeadingElement ?es) = 1 \<and> startsWith (js ''Guide'') (js ''Tab '') \<and>
             trim (extractFormattedTextFromParagraph (fst (hd (headingGroups ?es)))) = js ''Guide'')"
    by (simp add: not_Tab_Guide)
  show ?thesis using one_section_per_heading[OF 1 2 3 4] by (simp add: g fixture_simps)
qed

text \<open>
  C2 as stated fails: two headings of which the first has no body text before the second
  give one section, not two.
\<close>

theorem heading_without_body_not_emitted:
  "length (filter isHeadingElement
     [heading1 (js ''Setup''), heading2 (js ''Details''), normalText (js ''More info'')]) = 2 \<and>
   extractSectionsFromBody
     (Some \<lparr>body_content =
        Some [heading1 (js ''Setup''), heading2 (js ''Details''), normalText (js ''More info'')]\<rparr>)
     (js ''Guide'') =
   [\<lparr>title = js ''Details'', content = js ''More info'' @ [NL], level = 2,
     parentTab = js ''Guide'', sourceDocument = None\<rparr>]"
  by (simp add: extractSectionsFromBody_char fixture_simps renameSingle_def not_Tab_Guide)

text \<open>
  C3 (as the code has it). When the traversal emits no sections, the segmenter emits exactly
  one fallback section if the content seen (the text of every paragraph that is not skipped,
  headings included, and every rendered table, in traversal order) is not blank: of level 1,
  its content that seen content trimmed, its title the parent label, or the parent label with
  its leading "Tab " replaced by "Document " when the label starts with "Tab ". When the seen
  content is blank, as for an empty body, it emits no section. The traversal emits no sections
  exactly when no element has non-blank body text.
\<close>

theorem fallback_section:
  assumes "traversalSections pn es = []"
  shows "extractSectionsFromBody (Some \<lparr>body_content = Some es\<rparr>) pn =
     (if trim (seenContent es) = [] then []
      else [\<lparr>title = (if startsWith pn (js ''Tab '') then js ''Document '' @ drop 4 pn else pn),
             content = trim (seenContent es), level = 1, parentTab = pn, sourceDocument = None\<rparr>]) \<and>
     (\<forall>e\<in>set es. trim (bodyText e) = []) \<and>
     extractSectionsFromBody (Some \<lparr>body_content = Some []\<rparr>) pn = []"
proof -
  have "extractSectionsFromBody (Some \<lparr>body_content = Some []\<rparr>) pn = []"
    by (simp add: extractSectionsFromBody_char seenContent_def withFallback_cases
        nonBlankSections_def defaultSection_def renameSingle_def)
  moreover have "\<forall>e\<in>set es. trim (bodyText e) = []"
    using assms by (simp only: traversalSections_Nil_iff)
  ultimately show ?thesis
    using assms
    by (simp add: extractSectionsFromBody_def withFallback_cases allContent_traverse renameSingle_def
        defaultSection_def replaceFirst_Tab)
qed

theorem fallback_section_witness:
  "extractSectionsFromBody (Some \<lparr>body_content = Some [heading1 (js ''Setup'')]\<rparr>) (js ''Guide'') =
     [\<lparr>title = js ''Guide'', content = js ''Setup'', level = 1,
       parentTab = js ''Guide'', sourceDocument = None\<rparr>]"
proof -
  have 1: "traversalSections (js ''Guide'') [heading1 (js ''Setup'')] = []"
    by (simp add: traversalSections_char fixture_simps)
  have a: "trim (js ''Setup'' @ [NL]) = js ''Setup''"
    by (simp add: trim_def js_def isWhiteSpace_def)
  show ?thesis using fallback_section[OF 1] by (simp add: fixture_simps not_Tab_Guide a)
qed

text \<open>
  C3 as stated fails. A body that holds only a table without rows has non-heading content
  seen (two line feeds) and no section emitted by the traversal, yet no fallback section is
  emitted; and under the parent label "Tab 2" a heading followed by such a table gives a
  fallback section titled "Document 2", not "Tab 2".
\<close>

theorem fallback_not_emitted_or_renamed:
  "traversalSections (js ''Notes'') [emptyTable] = [] \<and>
   seenContent [emptyTable] = [NL, NL] \<and>
   extractSectionsFromBody (Some \<lparr>body_content = Some [emptyTable]\<rparr>) (js ''Notes'') = [] \<and>
   traversalSections (js ''Tab 2'') [heading1 (js ''Setup''), emptyTable] = [] \<and>
   extractSectionsFromBody
     (Some \<lparr>body_content = Some [heading1 (js ''Setup''), emptyTable]\<rparr>) (js ''Tab 2'') =
     [\<lparr>title = js ''Document 2'', content = js ''Setup'', level = 1,
       parentTab = js ''Tab 2'', sourceDocument = None\<rparr>]"
proof -
  have a: "trim (js ''Setup'' @ [NL, NL, NL]) = js ''Setup''"
    by (simp add: trim_def js_def isWhiteSpace_def)
  have b: "startsWith (js ''Tab 2'') (js ''Tab '')" by (simp add: startsWith_def js_def)
  have c: "replaceFirst (js ''Tab '') (js ''Document '') (js ''Tab 2'') = js ''Document 2''"
    by (simp add: replaceFirst_Tab[OF b]) (simp add: js_def)
  show ?thesis
    by (simp add: extractSectionsFromBody_char traversalSections_char fixture_simps renameSingle_def a b c)
qed

text \<open>
  C4 (as the code has it). Every section the segmenter surfaces has non-blank content, without
  exception. When the traversal pushes a section, the contents of the surfaced sections are
  exactly the non-blank ones among the body text before the first heading and the body text
  after each heading, as accumulated and untrimmed, and each ends with a line feed. When the
  traversal pushes none, the only content surfaced is that of the fallback section, the seen
  content trimmed. The normalized content that the page renderer puts on the page is trimmed:
  it neither begins nor ends with whitespace.
\<close>

theorem surfaced_sections_nonblank:
  "(\<forall>s \<in> set (extractSectionsFromBody b pn). trim (content s) \<noteq> []) \<and>
   (traversalSections pn es \<noteq> [] \<longrightarrow>
      map content (extractSectionsFromBody (Some \<lparr>body_content = Some es\<rparr>) pn) =
        filter (\<lambda>c. trim c \<noteq> []) (bodyUpToHeading es # map snd (headingGroups es)) \<and>
      (\<forall>s \<in> set (extractSectionsFromBody (Some \<lparr>body_content = Some es\<rparr>) pn).
         last (content s) = NL)) \<and>
   (traversalSections pn es = [] \<longrightarrow>
      map content (extractSectionsFromBody (Some \<lparr>body_content = Some es\<rparr>) pn) =
        (if trim (seenContent es) = [] then [] else [trim (seenContent es)])) \<and>
   trim (normalizeContent c) = normalizeContent c \<and>
   (normalizeContent c \<noteq> [] \<longrightarrow>
      \<not> isWhiteSpace (hd (normalizeContent c)) \<and> \<not> isWhiteSpace (last (normalizeContent c)))"
  using extractSectionsFromBody_nonblank[of _ b pn] extractSectionsFromBody_ends_NL[of pn es]
    normalizeContent_ends[of c]
  by (auto simp: extractSectionsFromBody_contents trim_normalizeContent)

theorem surfaced_sections_nonblank_witness:
  "map content (extractSectionsFromBody (Some scenarioA) (js ''Guide'')) =
     [js ''Intro text'' @ [NL], js ''Step one'' @ [NL], js ''More info'' @ [NL]] \<and>
   map content (extractSectionsFromBody (Some \<lparr>body_content = Some [heading1 (js ''Setup'')]\<rparr>) (js ''Guide'')) =
     [js ''Setup''] \<and>
   trim (normalizeContent (js ''Step one'' @ [NL])) = js ''Step one'' \<and>
   \<not> isWhiteSpace (last (normalizeContent (js ''Step one'' @ [NL])))"
proof -
  let ?es = "[normalText (js ''Intro text''), heading1 (js ''Setup''), normalText (js ''Step one''),
         heading2 (js ''Details''), normalText (js ''More info'')]"
  have 1: "traversalSections (js ''Guide'') ?es \<noteq> []"
    by (simp add: traversalSections_char fixture_simps)
  have 2: "traversalSections (js ''Guide'') [heading1 (js ''Setup'')] = []"
    by (simp add: traversalSections_char fixture_simps)
  have a: "trim (js ''Setup'' @ [NL]) = js ''Setup''"
    by (simp add: trim_def js_def isWhiteSpace_def)
  have n: "js ''Step one'' \<noteq> []" by (rule js_nonempty)
  show ?thesis
    using surfaced_sections_nonblank[of "Some scenarioA" "js ''Guide''" ?es "js ''Step one'' @ [NL]"]
      surfaced_sections_nonblank[of "Some scenarioA" "js ''Guide''" "[heading1 (js ''Setup'')]" "js ''Step one'' @ [NL]"]
    by (simp add: 1 2 a n scenarioA_def fixture_simps normalize_Step_one)
qed

text \<open>
  C4 as stated fails: the content of a section that ends with a table is emitted with
  trailing blank lines.
\<close>

theorem section_content_with_trailing_blank_lines:
  "extractSectionsFromBody
     (Some \<lparr>body_content = Some [heading1 (js ''Setup''), oneCellTable (js ''a'')]\<rparr>) (js ''Guide'') =
   [\<lparr>title = js ''Setup'', content = js ''| a |'' @ [NL] @ js ''| --- |'' @ [NL, NL, NL], level = 1,
     parentTab = js ''Guide'', sourceDocument = None\<rparr>]"
proof -
  have "trim (js ''| a |'' @ [NL] @ js ''| --- |'' @ [NL, NL, NL]) \<noteq> []"
    by (simp add: js_Cons trim_Cons_nonblank isWhiteSpace_def)
  then show ?thesis
    by (simp add: extractSectionsFromBody_char fixture_simps fixture_bodyText_table
        fixture_seenText_table renameSingle_def not_Tab_Guide)
qed

text \<open>
  C6. For every section whose content is not blank and whose level is at least 1, the page is
  '#' repeated min(level, 6) times, a space, the title, a blank line, the normalized content
  and one line feed; the normalized content is not empty and does not end with a line feed, so
  the page ends with exactly one. Every section the converter builds is such a section: those
  of the segmenter, those of a whole document, and those a member document of a folder adds
  (the sections of the document, the section for an empty document, the error section).
\<close>

theorem page_layout:
  "(trim (content s) \<noteq> [] \<and> 1 \<le> level s \<longrightarrow> pageAsClaimed s) \<and>
   (\<forall>s\<in>set (extractSectionsFromBody b pn). pageAsClaimed s) \<and>
   (\<forall>s\<in>set (extractSectionsFromGoogleDoc doc). pageAsClaimed s) \<and>
   (\<forall>s\<in>set (memberEntries fetch d). pageAsClaimed s)"
  using pageAsClaimed_if built_sections_ok member_sections_ok
    extractSectionsFromBody_nonblank extractSectionsFromBody_level
  by blast

theorem page_layout_witness:
  "page_content (createNotionPageFromSection
      \<lparr>title = js ''Setup'', content = js ''Step one'' @ [NL], level = 1,
       parentTab = js ''Guide'', sourceDocument = None\<rparr>) =
     js ''# Setup'' @ [NL, NL] @ js ''Step one'' @ [NL] \<and>
   pageAsClaimed (extractSectionsFromBody (Some scenarioA) (js ''Guide'') ! 2) \<and>
   pageAsClaimed (hd (extractSectionsFromGoogleDoc
      \<lparr>doc_title = Some (js ''Notes''), tabs = None,
       doc_body = Some \<lparr>body_content = Some [normalText (js ''Hello'')]\<rparr>\<rparr>)) \<and>
   pageAsClaimed (hd (memberEntries scenarioD_fetch \<lparr>file_id = js ''id2'', file_name = js ''Two''\<rparr>))"
proof -
  let ?s = "\<lparr>title = js ''Setup'', content = js ''Step one'' @ [NL], level = 1,
       parentTab = js ''Guide'', sourceDocument = None\<rparr>"
  let ?doc = "\<lparr>doc_title = Some (js ''Notes''), tabs = None,
       doc_body = Some \<lparr>body_content = Some [normalText (js ''Hello'')]\<rparr>\<rparr>"
  let ?d = "\<lparr>file_id = js ''id2'', file_name = js ''Two''\<rparr>"
  have a: "trim (js ''Step one'' @ [NL]) \<noteq> []"
    by (simp add: trim_append_nonblank scenario_strings js_nonempty)
  have g: "extractSectionsFromGoogleDoc ?doc =
     [\<lparr>title = js ''Notes'', content = js ''Hello'' @ [NL], level = 1, parentTab = js ''Notes'',
       sourceDocument = None\<rparr>]"
    by (simp add: extractSectionsFromGoogleDoc_def js_eq_Nil hello_sections not_Tab_Notes)
  have m: "memberEntries scenarioD_fetch ?d = [errorSection ?d (js ''not-found'')]"
    using scenarioD_entries(2) by (simp add: memberEntries_error)
  have h: "js ''#'' @ js '' '' @ js ''Setup'' = js ''# Setup''" by (simp add: js_def)
  note t = page_layout[of ?s "Some scenarioA" "js ''Guide''" ?doc scenarioD_fetch ?d]
  from t a have "pageAsClaimed ?s" by simp
  then have 1: "page_content (createNotionPageFromSection ?s) =
     js ''# Setup'' @ [NL, NL] @ js ''Step one'' @ [NL]"
    by (simp add: pageAsClaimed_def normalize_Step_one repeat_def h[symmetric])
  from t have "\<forall>s\<in>set (extractSectionsFromBody (Some scenarioA) (js ''Guide'')). pageAsClaimed s"
    by blast
  then have 2: "pageAsClaimed (extractSectionsFromBody (Some scenarioA) (js ''Guide'') ! 2)"
    by (simp add: scenarioA_sections)
  from t have "\<forall>s\<in>set (extractSectionsFromGoogleDoc ?doc). pageAsClaimed s" by blast
  then have 3: "pageAsClaimed (hd (extractSectionsFromGoogleDoc ?doc))" by (simp add: g)
  from t have "\<forall>s\<in>set (memberEntries scenarioD_fetch ?d). pageAsClaimed s" by blast
  then have 4: "pageAsClaimed (hd (memberEntries scenarioD_fetch ?d))" by (simp add: m)
  from 1 2 3 4 show ?thesis by blast
qed

text \<open>
  C7. The whitespace normalization of the page renderer (trim, three or more line feeds to
  two, a space between a period and an upper-case letter, two or more spaces or tabs to one
  space, trim) is idempotent.
\<close>

theorem normalizeContent_idempotent: "normalizeContent (normalizeContent c) = normalizeContent c"
  using normalizeContent_normal[of c] by (intro normalizeContent_fixed) simp_all

text \<open>
  C8. Folder processing with a non-empty listing succeeds, and the pages it returns are the
  pages of the sections of each listed document, in order, at least one page per document:
  every section a listed document adds has its page in the result. A document whose four
  requests all fail adds exactly one error section, and the page of that section is in the
  result: the title is "Error - " and the document's name, the content starts with "Failed to
  process this document: " and the error message, and section and page are attributed to the
  document. For a listed document with a name the result holds a page attributed to it. In
  Scenario D (three documents, the second not found) the result is three pages, the second
  the error page; with a fourth document that fails too it is four pages.
\<close>

theorem folder_failures_isolated:
  "(docs \<noteq> [] \<longrightarrow>
      processFolderWithGoogleAPI fetch docs =
        Inr (map createNotionPageFromSection (concat (map (memberEntries fetch) docs))) \<and>
      length docs \<le> length (map createNotionPageFromSection (concat (map (memberEntries fetch) docs)))) \<and>
   (d \<in> set docs \<longrightarrow>
      (\<exists>pages. processFolderWithGoogleAPI fetch docs = Inr pages \<and>
         length docs \<le> length pages \<and>
         (\<exists>s\<in>set (memberEntries fetch d). createNotionPageFromSection s \<in> set pages) \<and>
         (\<forall>s\<in>set (memberEntries fetch d). createNotionPageFromSection s \<in> set pages) \<and>
         (fetchDocument fetch (file_id d) = Inl msg \<longrightarrow>
            createNotionPageFromSection (errorSection d msg) \<in> set pages) \<and>
         (file_name d \<noteq> [] \<longrightarrow> (\<exists>p\<in>set pages. page_sourceDocument p = Some (file_name d))))) \<and>
   memberEntries fetch d \<noteq> [] \<and>
   (fetchDocument fetch (file_id d) = Inl msg \<longrightarrow>
      memberEntries fetch d = [errorSection d msg] \<and>
      title (errorSection d msg) = js ''Error - '' @ file_name d \<and>
      startsWith (content (errorSection d msg)) (js ''Failed to process this document: '' @ msg) \<and>
      sourceDocument (errorSection d msg) = Some (file_name d) \<and>
      page_title (createNotionPageFromSection (errorSection d msg)) = js ''Error - '' @ file_name d \<and>
      page_sourceDocument (createNotionPageFromSection (errorSection d msg)) = Some (file_name d)) \<and>
   (file_name d \<noteq> [] \<longrightarrow> (\<forall>s\<in>set (memberEntries fetch d). sourceDocument s = Some (file_name d)))"
proof -
  let ?secs = "concat (map (memberEntries fetch) docs)"
  let ?pages = "map createNotionPageFromSection ?secs"
  have len: "length docs \<le> length ?secs"
    by (rule length_concat_ge) (rule memberEntries_nonempty)
  have ne: "docs \<noteq> [] \<Longrightarrow> ?secs \<noteq> []"
    using memberEntries_nonempty[of fetch] by (cases docs) auto
  have run: "docs \<noteq> [] \<Longrightarrow> processFolderWithGoogleAPI fetch docs = Inr ?pages"
    using ne by (simp add: processFolderWithGoogleAPI_def foldl_processMember Let_def
        createNotionPagesFromSections_def)
  have sw: "startsWith (content (errorSection d msg)) (js ''Failed to process this document: '' @ msg)"
    by (simp add: errorSection_def startsWith_def)
  have mem: "d \<in> set docs \<Longrightarrow> s \<in> set (memberEntries fetch d) \<Longrightarrow>
      createNotionPageFromSection s \<in> set ?pages" for s
    by auto
  obtain s0 where s0: "s0 \<in> set (memberEntries fetch d)"
    using memberEntries_nonempty[of fetch d] by (cases "memberEntries fetch d") auto
  have part: "d \<in> set docs \<Longrightarrow>
      (\<exists>pages. processFolderWithGoogleAPI fetch docs = Inr pages \<and>
         length docs \<le> length pages \<and>
         (\<exists>s\<in>set (memberEntries fetch d). createNotionPageFromSection s \<in> set pages) \<and>
         (\<forall>s\<in>set (memberEntries fetch d). createNotionPageFromSection s \<in> set pages) \<and>
         (fetchDocument fetch (file_id d) = Inl msg \<longrightarrow>
            createNotionPageFromSection (errorSection d msg) \<in> set pages) \<and>
         (file_name d \<noteq> [] \<longrightarrow> (\<exists>p\<in>set pages. page_sourceDocument p = Some (file_name d))))"
  proof -
    assume d: "d \<in> set docs"
    then have "docs \<noteq> []" by auto
    then have r: "processFolderWithGoogleAPI fetch docs = Inr ?pages" by (rule run)
    have 1: "length docs \<le> length ?pages" using len by simp
    have 2: "\<exists>s\<in>set (memberEntries fetch d). createNotionPageFromSection s \<in> set ?pages"
      using s0 mem[OF d s0] by blast
    have 3: "\<forall>s\<in>set (memberEntries fetch d). createNotionPageFromSection s \<in> set ?pages"
      using mem[OF d] by blast
    have 4: "fetchDocument fetch (file_id d) = Inl msg \<longrightarrow>
            createNotionPageFromSection (errorSection d msg) \<in> set ?pages"
    proof
      assume "fetchDocument fetch (file_id d) = Inl msg"
      then have "errorSection d msg \<in> set (memberEntries fetch d)"
        by (simp add: memberEntries_error)
      then show "createNotionPageFromSection (errorSection d msg) \<in> set ?pages" by (rule mem[OF d])
    qed
    have 5: "file_name d \<noteq> [] \<longrightarrow> (\<exists>p\<in>set ?pages. page_sourceDocument p = Some (file_name d))"
    proof
      assume n: "file_name d \<noteq> []"
      have "page_sourceDocument (createNotionPageFromSection s0) = Some (file_name d)"
        using memberEntries_source[OF n s0] by simp
      then show "\<exists>p\<in>set ?pages. page_sourceDocument p = Some (file_name d)"
        using mem[OF d s0] by blast
    qed
    from r 1 2 3 4 5 show ?thesis by blast
  qed
  show ?thesis
    using len run sw part memberEntries_nonempty[of fetch d] memberEntries_error[of fetch d msg]
      memberEntries_source[of d _ fetch]
    by (auto simp: errorSection_def)
qed

theorem folder_failures_isolated_witness:
  "(case processFolderWithGoogleAPI scenarioD_fetch scenarioD_docs of
      Inl err \<Rightarrow> False
    | Inr pages \<Rightarrow>
        map page_title pages = [js ''Notes'', js ''Error - Two'', js ''Notes''] \<and>
        map page_sourceDocument pages = [Some (js ''One''), Some (js ''Two''), Some (js ''Three'')]) \<and>
   (case processFolderWithGoogleAPI scenarioD_fetch
           (scenarioD_docs @ [\<lparr>file_id = js ''id2'', file_name = js ''Four''\<rparr>]) of
      Inl err \<Rightarrow> False
    | Inr pages \<Rightarrow>
        map page_title pages = [js ''Notes'', js ''Error - Two'', js ''Notes'', js ''Error - Four''] \<and>
        map page_sourceDocument pages =
          [Some (js ''One''), Some (js ''Two''), Some (js ''Three''), Some (js ''Four'')])"
proof -
  have e: "js ''Error - '' @ js ''Two'' = js ''Error - Two''"
    "js ''Error - '' @ js ''Four'' = js ''Error - Four''" by (simp_all add: js_def)
  have m: "memberEntries scenarioD_fetch \<lparr>file_id = js ''id2'', file_name = n\<rparr> =
      [errorSection \<lparr>file_id = js ''id2'', file_name = n\<rparr> (js ''not-found'')]" for n
    using scenarioD_entries(2) by (simp add: memberEntries_error)
  show ?thesis
    using folder_failures_isolated[of scenarioD_docs scenarioD_fetch "\<lparr>file_id = js ''id2'', file_name = js ''Two''\<rparr>" "js ''not-found''"]
      folder_failures_isolated[of "scenarioD_docs @ [\<lparr>file_id = js ''id2'', file_name = js ''Four''\<rparr>]" scenarioD_fetch
               "\<lparr>file_id = js ''id2'', file_name = js ''Four''\<rparr>" "js ''not-found''"]
    by (simp add: scenarioD_docs_def scenarioD_entries m e js_eq_Nil errorSection_def)
qed

text \<open>
  C9 (as the code has it). For a document with tabs the sections are those of the flattened
  tabs (every top-level tab followed by its child tabs) in order, the tab at position i
  (counted from 0) being segmented under its label. An untitled tab at a position of at least
  1 is labelled "Tab " and the position plus 1; a tab with a title other than "Tab 1" is
  labelled with its title; when the document has no title, or an empty one, every tab is
  labelled with its own title or, when untitled, with "Tab " and its position plus 1. For a
  document whose only SubDocument is a single tab, the label is the document's title when
  that title is not empty and the tab has no title, an empty title or the title "Tab 1", and
  the tab's own title (or "Tab 1") otherwise.
\<close>

theorem tab_label:
  "(tabs doc = Some ts \<and> ts \<noteq> [] \<longrightarrow>
      extractSectionsFromGoogleDoc doc =
        concat (map (\<lambda>(i, t). extractSectionsFromTab t i (doc_title doc))
                    (enumerate 0 (flattenTabs ts)))) \<and>
   extractSectionsFromTab t i dt =
     (case tabBody t of
        None \<Rightarrow> []
      | Some b \<Rightarrow> extractSectionsFromBody (Some b) (effectiveTabName t i dt)) \<and>
   (untitled t \<and> 1 \<le> i \<longrightarrow> effectiveTabName t i dt = js ''Tab '' @ string_of_nat (i + 1)) \<and>
   (\<not> untitled t \<and> \<not> titledTab1 t \<longrightarrow>
      effectiveTabName t i dt = tabTitle t i \<and>
      tab_title (the (tabProperties t)) = Some (tabTitle t i)) \<and>
   (\<not> truthy dt \<longrightarrow> effectiveTabName t i dt = tabTitle t i) \<and>
   (untitled t \<longrightarrow> tabTitle t i = js ''Tab '' @ string_of_nat (i + 1)) \<and>
   (tabs doc = Some [t] \<and> (childTabs t = None \<or> childTabs t = Some []) \<longrightarrow>
      extractSectionsFromGoogleDoc doc =
        (case tabBody t of
           None \<Rightarrow> []
         | Some b \<Rightarrow>
             extractSectionsFromBody (Some b)
               (if (untitled t \<or> titledTab1 t) \<and> truthy (doc_title doc) then the (doc_title doc)
                else tabTitle t 0)))"
proof -
  have u: "untitled t \<Longrightarrow> \<not> titledTab1 t"
    by (auto simp: untitled_def titledTab1_def js_eq_Nil split: option.splits)
  have 1: "tabs doc = Some ts \<and> ts \<noteq> [] \<longrightarrow>
      extractSectionsFromGoogleDoc doc =
        concat (map (\<lambda>(i, t). extractSectionsFromTab t i (doc_title doc))
                    (enumerate 0 (flattenTabs ts)))"
    using extractSectionsFromGoogleDoc_tabs[of doc ts] by (simp add: allTabs_flattenTabs)
  have 7: "tabs doc = Some [t] \<and> (childTabs t = None \<or> childTabs t = Some []) \<longrightarrow>
      extractSectionsFromGoogleDoc doc =
        (case tabBody t of
           None \<Rightarrow> []
         | Some b \<Rightarrow>
             extractSectionsFromBody (Some b)
               (if (untitled t \<or> titledTab1 t) \<and> truthy (doc_title doc) then the (doc_title doc)
                else tabTitle t 0))"
    by (auto simp: extractSectionsFromGoogleDoc_def allTabs_single enumerate_eq_zip
        extractSectionsFromTab_def effectiveTabName_char split: option.splits)
  have 3: "untitled t \<and> 1 \<le> i \<longrightarrow> effectiveTabName t i dt = js ''Tab '' @ string_of_nat (i + 1)"
    using u by (auto simp: effectiveTabName_char tabTitle_untitled)
  have 4: "\<not> untitled t \<and> \<not> titledTab1 t \<longrightarrow>
      effectiveTabName t i dt = tabTitle t i \<and>
      tab_title (the (tabProperties t)) = Some (tabTitle t i)"
    using tabTitle_titled[of t i] by (auto simp: effectiveTabName_char)
  have 5: "\<not> truthy dt \<longrightarrow> effectiveTabName t i dt = tabTitle t i"
    by (simp add: effectiveTabName_char)
  have 6: "untitled t \<longrightarrow> tabTitle t i = js ''Tab '' @ string_of_nat (i + 1)"
    by (simp add: tabTitle_untitled)
  from 1 3 4 5 6 7 extractSectionsFromTab_label[of t i dt] show ?thesis by blast
qed

theorem tab_label_witness:
  "extractSectionsFromGoogleDoc
     \<lparr>doc_title = Some (js ''Handbook''),
      tabs = Some
        [Tab (Some \<lparr>tab_title = Some (js ''Notes'')\<rparr>) None
             (Some \<lparr>body_content = Some [normalText (js ''Hello'')]\<rparr>)
             (Some [Tab None None (Some \<lparr>body_content = Some [normalText (js ''Hello'')]\<rparr>) None]),
         Tab None None (Some \<lparr>body_content = Some [normalText (js ''Hello'')]\<rparr>) None],
      doc_body = None\<rparr> =
     [\<lparr>title = js ''Notes'', content = js ''Hello'' @ [NL], level = 1,
       parentTab = js ''Notes'', sourceDocument = None\<rparr>,
      \<lparr>title = js ''Document 2'', content = js ''Hello'' @ [NL], level = 1,
       parentTab = js ''Tab 2'', sourceDocument = None\<rparr>,
      \<lparr>title = js ''Document 3'', content = js ''Hello'' @ [NL], level = 1,
       parentTab = js ''Tab 3'', sourceDocument = None\<rparr>] \<and>
   extractSectionsFromGoogleDoc
     \<lparr>doc_title = Some (js ''Handbook''),
      tabs = Some [Tab None (Some \<lparr>dt_body = Some \<lparr>body_content = Some [normalText (js ''Hello'')]\<rparr>\<rparr>) None None],
      doc_body = None\<rparr> =
     [\<lparr>title = js ''Handbook'', content = js ''Hello'' @ [NL], level = 1,
       parentTab = js ''Handbook'', sourceDocument = None\<rparr>] \<and>
   effectiveTabName (Tab None None None None) 0 None = js ''Tab 1''"
proof -
  let ?b = "Some \<lparr>body_content = Some [normalText (js ''Hello'')]\<rparr>"
  let ?c = "Tab None None ?b None"
  let ?n = "Tab (Some \<lparr>tab_title = Some (js ''Notes'')\<rparr>) None ?b (Some [?c])"
  let ?ts = "[?n, ?c]"
  let ?doc = "\<lparr>doc_title = Some (js ''Handbook''), tabs = Some ?ts, doc_body = None\<rparr>"
  let ?s = "Tab None (Some \<lparr>dt_body = ?b\<rparr>) None None"
  let ?one = "\<lparr>doc_title = Some (js ''Handbook''), tabs = Some [?s], doc_body = None\<rparr>"
  let ?dt = "Some (js ''Handbook'')"
  have u: "untitled ?c" "untitled ?s" "untitled (Tab None None None None)"
    by (simp_all add: untitled_def)
  have n: "\<not> untitled ?n" "\<not> titledTab1 ?n"
    by (simp_all add: untitled_def titledTab1_def js_inj js_eq_Nil)
  have tn: "tabTitle ?n 0 = js ''Notes''" by (simp add: tabTitle_def js_eq_Nil)
  have e: "js ''Tab '' @ js ''2'' = js ''Tab 2''" "js ''Tab '' @ js ''3'' = js ''Tab 3''"
    "js ''Document '' @ js ''2'' = js ''Document 2''" "js ''Document '' @ js ''3'' = js ''Document 3''"
    "js ''Tab '' @ js ''1'' = js ''Tab 1''"
    by (simp_all add: js_def)
  have s1: "string_of_nat (Suc 0) = js ''1''" by (simp add: string_of_nat.simps js_def)
  have f: "flattenTabs ?ts = [?n, ?c, ?c]" by (simp add: flattenTabs_def childrenOf_def)
  have l0: "extractSectionsFromTab ?n 0 ?dt = extractSectionsFromBody ?b (js ''Notes'')"
    using tab_label[of ?doc ?ts ?n 0 ?dt] n by (simp add: tabBody_def tn)
  have l1: "extractSectionsFromTab ?c (Suc 0) ?dt = extractSectionsFromBody ?b (js ''Tab '' @ js ''2'')"
    using tab_label[of ?doc ?ts ?c "Suc 0" ?dt] u by (simp add: tabBody_def string_of_nat_2)
  have l2: "extractSectionsFromTab ?c (Suc (Suc 0)) ?dt = extractSectionsFromBody ?b (js ''Tab '' @ js ''3'')"
    using tab_label[of ?doc ?ts ?c "Suc (Suc 0)" ?dt] u by (simp add: tabBody_def string_of_nat_3)
  have 1: "extractSectionsFromGoogleDoc ?doc =
     extractSectionsFromBody ?b (js ''Notes'') @ extractSectionsFromBody ?b (js ''Tab '' @ js ''2'') @
     extractSectionsFromBody ?b (js ''Tab '' @ js ''3'')"
    using tab_label[of ?doc ?ts ?n 0 ?dt] by (simp add: f enumerate_eq_zip upt_rec l0 l1 l2)
  have h: "tabs ?one = Some [?s] \<and> (childTabs ?s = None \<or> childTabs ?s = Some [])" by simp
  with tab_label[of ?one "[?s]" ?s 0 ?dt]
  have "extractSectionsFromGoogleDoc ?one =
        (case tabBody ?s of
           None \<Rightarrow> []
         | Some b \<Rightarrow>
             extractSectionsFromBody (Some b)
               (if (untitled ?s \<or> titledTab1 ?s) \<and> truthy (doc_title ?one) then the (doc_title ?one)
                else tabTitle ?s 0))"
    by blast
  then have 2: "extractSectionsFromGoogleDoc ?one = extractSectionsFromBody ?b (js ''Handbook'')"
    using u by (simp add: tabBody_def js_eq_Nil)
  have 3: "effectiveTabName (Tab None None None None) 0 None = js ''Tab 1''"
    using tab_label[of ?doc ?ts "Tab None None None None" 0 None] u by (simp add: s1 e)
  have t2: "extractSectionsFromBody ?b (js ''Tab 2'') =
      [\<lparr>title = js ''Document 2'', content = js ''Hello'' @ [NL], level = 1,
        parentTab = js ''Tab 2'', sourceDocument = None\<rparr>]"
    using hello_sections_Tab[of "js ''2''"] by (simp add: e)
  have t3: "extractSectionsFromBody ?b (js ''Tab 3'') =
      [\<lparr>title = js ''Document 3'', content = js ''Hello'' @ [NL], level = 1,
        parentTab = js ''Tab 3'', sourceDocument = None\<rparr>]"
    using hello_sections_Tab[of "js ''3''"] by (simp add: e)
  show ?thesis
    unfolding 1 2 3
    by (simp add: hello_sections not_Tab_Notes not_Tab_Handbook e t2 t3)
qed

text \<open>
  C9 as stated fails: the document's title is the label of an only tab that has the title
  "Tab 1", and of an untitled first tab of a document with two tabs.
\<close>

theorem document_title_for_tab_1:
  "extractSectionsFromGoogleDoc
     \<lparr>doc_title = Some (js ''Handbook''),
      tabs = Some [Tab (Some \<lparr>tab_title = Some (js ''Tab 1'')\<rparr>) None
                       (Some \<lparr>body_content = Some [normalText (js ''Hello'')]\<rparr>) None],
      doc_body = None\<rparr> =
     [\<lparr>title = js ''Handbook'', content = js ''Hello'' @ [NL], level = 1,
       parentTab = js ''Handbook'', sourceDocument = None\<rparr>] \<and>
   extractSectionsFromGoogleDoc
     \<lparr>doc_title = Some (js ''Handbook''),
      tabs = Some [Tab None None (Some \<lparr>body_content = Some [normalText (js ''Hello'')]\<rparr>) None,
                   Tab (Some \<lparr>tab_title = Some (js ''Second'')\<rparr>) None
                       (Some \<lparr>body_content = Some [normalText (js ''Hello'')]\<rparr>) None],
      doc_body = None\<rparr> =
     [\<lparr>title = js ''Handbook'', content = js ''Hello'' @ [NL], level = 1,
       parentTab = js ''Handbook'', sourceDocument = None\<rparr>,
      \<lparr>title = js ''Second'', content = js ''Hello'' @ [NL], level = 1,
       parentTab = js ''Second'', sourceDocument = None\<rparr>]"
proof -
  have a: "\<not> startsWith (js ''Second'') (js ''Tab '')" by (simp add: startsWith_def js_def)
  have b: "js ''Tab '' @ string_of_nat (Suc 0) = js ''Tab 1''"
    by (simp add: string_of_nat.simps js_def)
  show ?thesis
    by (simp add: extractSectionsFromGoogleDoc_def allTabs_def enumerate_eq_zip
        extractSectionsFromTab_def tabBody_def effectiveTabName_def tabTitle_def js_eq_Nil js_inj
        hello_sections not_Tab_Handbook a b upt_rec)
qed

text \<open>
  C10. The named style TITLE gives heading level 1 and SUBTITLE level 2; a style that is
  none of the eight recognized ones, or no named style, gives level 0. A paragraph styled
  TITLE whose text is not blank starts a new section exactly as one styled HEADING_1 does: the
  current section is pushed if its content is not blank, and a section of level 1 titled
  with the paragraph's trimmed text becomes current, its content the body text up to the next
  heading; likewise SUBTITLE and HEADING_2 with level 2. A paragraph of an unrecognized style
  adds its text to the current section. The segmenter yields the same sections when title and
  subtitle paragraphs are restyled as HEADING_1 and HEADING_2.
\<close>

theorem getHeadingLevel_title_subtitle:
  "(namedStyle p = Some (js ''TITLE'') \<longrightarrow> getHeadingLevel p = 1) \<and>
   (namedStyle p = Some (js ''SUBTITLE'') \<longrightarrow> getHeadingLevel p = 2) \<and>
   (namedStyle p \<notin> {Some (js ''HEADING_1''), Some (js ''HEADING_2''), Some (js ''HEADING_3''),
                    Some (js ''HEADING_4''), Some (js ''HEADING_5''), Some (js ''HEADING_6''),
                    Some (js ''TITLE''), Some (js ''SUBTITLE'')} \<longrightarrow> getHeadingLevel p = 0) \<and>
   extractSectionsFromBody (Some \<lparr>body_content = Some (map titlesAsHeadings es)\<rparr>) pn =
     extractSectionsFromBody (Some \<lparr>body_content = Some es\<rparr>) pn \<and>
   ((namedStyle p = Some (js ''TITLE'') \<or> namedStyle p = Some (js ''HEADING_1'')) \<and>
    trim (extractFormattedTextFromParagraph p) \<noteq> [] \<longrightarrow>
      processElement pn st (Paragraph p) =
        \<lparr>sections = pushCurrent st,
         currentSection =
           Some \<lparr>title = trim (extractFormattedTextFromParagraph p), content = [],
                 level = 1, parentTab = pn, sourceDocument = None\<rparr>,
         allContent = allContent st @ extractFormattedTextFromParagraph p @ [NL]\<rparr> \<and>
      traversalSections pn (Paragraph p # es) =
        nonBlankSections
          (\<lparr>title = trim (extractFormattedTextFromParagraph p), content = bodyUpToHeading es,
            level = 1, parentTab = pn, sourceDocument = None\<rparr> #
           map (groupSection pn) (headingGroups es))) \<and>
   ((namedStyle p = Some (js ''SUBTITLE'') \<or> namedStyle p = Some (js ''HEADING_2'')) \<and>
    trim (extractFormattedTextFromParagraph p) \<noteq> [] \<longrightarrow>
      processElement pn st (Paragraph p) =
        \<lparr>sections = pushCurrent st,
         currentSection =
           Some \<lparr>title = trim (extractFormattedTextFromParagraph p), content = [],
                 level = 2, parentTab = pn, sourceDocument = None\<rparr>,
         allContent = allContent st @ extractFormattedTextFromParagraph p @ [NL]\<rparr> \<and>
      traversalSections pn (Paragraph p # es) =
        nonBlankSections
          (\<lparr>title = trim (extractFormattedTextFromParagraph p), content = bodyUpToHeading es,
            level = 2, parentTab = pn, sourceDocument = None\<rparr> #
           map (groupSection pn) (headingGroups es))) \<and>
   (namedStyle p \<notin> {Some (js ''HEADING_1''), Some (js ''HEADING_2''), Some (js ''HEADING_3''),
                    Some (js ''HEADING_4''), Some (js ''HEADING_5''), Some (js ''HEADING_6''),
                    Some (js ''TITLE''), Some (js ''SUBTITLE'')} \<and>
    trim (extractFormattedTextFromParagraph p) \<noteq> [] \<longrightarrow>
      processElement pn st (Paragraph p) =
        \<lparr>sections = sections st,
         currentSection =
           Some (extendSection pn (currentSection st) (extractFormattedTextFromParagraph p @ [NL])),
         allContent = allContent st @ extractFormattedTextFromParagraph p @ [NL]\<rparr>)"
proof -
  have a: "(namedStyle p = Some (js ''TITLE'') \<or> namedStyle p = Some (js ''HEADING_1'')) \<Longrightarrow>
           getHeadingLevel p = 1"
    using getHeadingLevel_styles(1,3)[of p] by blast
  have b: "(namedStyle p = Some (js ''SUBTITLE'') \<or> namedStyle p = Some (js ''HEADING_2'')) \<Longrightarrow>
           getHeadingLevel p = 2"
    using getHeadingLevel_styles(2,4)[of p] by blast
  have 5: "(namedStyle p = Some (js ''TITLE'') \<or> namedStyle p = Some (js ''HEADING_1'')) \<and>
    trim (extractFormattedTextFromParagraph p) \<noteq> [] \<longrightarrow>
      processElement pn st (Paragraph p) =
        \<lparr>sections = pushCurrent st,
         currentSection =
           Some \<lparr>title = trim (extractFormattedTextFromParagraph p), content = [],
                 level = 1, parentTab = pn, sourceDocument = None\<rparr>,
         allContent = allContent st @ extractFormattedTextFromParagraph p @ [NL]\<rparr> \<and>
      traversalSections pn (Paragraph p # es) =
        nonBlankSections
          (\<lparr>title = trim (extractFormattedTextFromParagraph p), content = bodyUpToHeading es,
            level = 1, parentTab = pn, sourceDocument = None\<rparr> #
           map (groupSection pn) (headingGroups es))"
  proof
    assume h: "(namedStyle p = Some (js ''TITLE'') \<or> namedStyle p = Some (js ''HEADING_1'')) \<and>
      trim (extractFormattedTextFromParagraph p) \<noteq> []"
    then have l: "getHeadingLevel p = 1" using a by blast
    from h have nb: "trim (extractFormattedTextFromParagraph p) \<noteq> []" by blast
    from l have "0 < getHeadingLevel p" by simp
    from opens_section[OF nb this, of pn st es] show
      "processElement pn st (Paragraph p) =
        \<lparr>sections = pushCurrent st,
         currentSection =
           Some \<lparr>title = trim (extractFormattedTextFromParagraph p), content = [],
                 level = 1, parentTab = pn, sourceDocument = None\<rparr>,
         allContent = allContent st @ extractFormattedTextFromParagraph p @ [NL]\<rparr> \<and>
      traversalSections pn (Paragraph p # es) =
        nonBlankSections
          (\<lparr>title = trim (extractFormattedTextFromParagraph p), content = bodyUpToHeading es,
            level = 1, parentTab = pn, sourceDocument = None\<rparr> #
           map (groupSection pn) (headingGroups es))"
      by (simp only: l)
  qed
  have 6: "(namedStyle p = Some (js ''SUBTITLE'') \<or> namedStyle p = Some (js ''HEADING_2'')) \<and>
    trim (extractFormattedTextFromParagraph p) \<noteq> [] \<longrightarrow>
      processElement pn st (Paragraph p) =
        \<lparr>sections = pushCurrent st,
         currentSection =
           Some \<lparr>title = trim (extractFormattedTextFromParagraph p), content = [],
                 level = 2, parentTab = pn, sourceDocument = None\<rparr>,
         allContent = allContent st @ extractFormattedTextFromParagraph p @ [NL]\<rparr> \<and>
      traversalSections pn (Paragraph p # es) =
        nonBlankSections
          (\<lparr>title = trim (extractFormattedTextFromParagraph p), content = bodyUpToHeading es,
            level = 2, parentTab = pn, sourceDocument = None\<rparr> #
           map (groupSection pn) (headingGroups es))"
  proof
    assume h: "(namedStyle p = Some (js ''SUBTITLE'') \<or> namedStyle p = Some (js ''HEADING_2'')) \<and>
      trim (extractFormattedTextFromParagraph p) \<noteq> []"
    then have l: "getHeadingLevel p = 2" using b by blast
    from h have nb: "trim (extractFormattedTextFromParagraph p) \<noteq> []" by blast
    from l have "0 < getHeadingLevel p" by simp
    from opens_section[OF nb this, of pn st es] show
      "processElement pn st (Paragraph p) =
        \<lparr>sections = pushCurrent st,
         currentSection =
           Some \<lparr>title = trim (extractFormattedTextFromParagraph p), content = [],
                 level = 2, parentTab = pn, sourceDocument = None\<rparr>,
         allContent = allContent st @ extractFormattedTextFromParagraph p @ [NL]\<rparr> \<and>
      traversalSections pn (Paragraph p # es) =
        nonBlankSections
          (\<lparr>title = trim (extractFormattedTextFromParagraph p), content = bodyUpToHeading es,
            level = 2, parentTab = pn, sourceDocument = None\<rparr> #
           map (groupSection pn) (headingGroups es))"
      by (simp only: l)
  qed
  have 7: "namedStyle p \<notin> {Some (js ''HEADING_1''), Some (js ''HEADING_2''), Some (js ''HEADING_3''),
                    Some (js ''HEADING_4''), Some (js ''HEADING_5''), Some (js ''HEADING_6''),
                    Some (js ''TITLE''), Some (js ''SUBTITLE'')} \<and>
    trim (extractFormattedTextFromParagraph p) \<noteq> [] \<longrightarrow>
      processElement pn st (Paragraph p) =
        \<lparr>sections = sections st,
         currentSection =
           Some (extendSection pn (currentSection st) (extractFormattedTextFromParagraph p @ [NL])),
         allContent = allContent st @ extractFormattedTextFromParagraph p @ [NL]\<rparr>"
    using getHeadingLevel_unrecognized[of p] processElement_text[of p pn st] by blast
  have 4: "extractSectionsFromBody (Some \<lparr>body_content = Some (map titlesAsHeadings es)\<rparr>) pn =
     extractSectionsFromBody (Some \<lparr>body_content = Some es\<rparr>) pn"
    by (simp add: extractSectionsFromBody_def traversalSections_def traverse_def foldl_titlesAsHeadings)
  from 4 5 6 7 getHeadingLevel_styles(1,2)[of p] getHeadingLevel_unrecognized[of p]
  show ?thesis by blast
qed

theorem getHeadingLevel_title_subtitle_witness:
  "getHeadingLevel (textParagraph (Some (js ''TITLE'')) (js ''Guide'')) = 1 \<and>
   getHeadingLevel (textParagraph (Some (js ''SUBTITLE'')) (js ''Guide'')) = 2 \<and>
   getHeadingLevel (textParagraph (Some (js ''NORMAL_TEXT'')) (js ''Guide'')) = 0 \<and>
   getHeadingLevel (textParagraph None (js ''Guide'')) = 0 \<and>
   extractSectionsFromBody
     (Some \<lparr>body_content = Some [Paragraph (textParagraph (Some (js ''TITLE'')) (js ''Setup'')),
                                 normalText (js ''Hello'')]\<rparr>) (js ''Guide'') =
     [\<lparr>title = js ''Setup'', content = js ''Hello'' @ [NL], level = 1,
       parentTab = js ''Guide'', sourceDocument = None\<rparr>] \<and>
   extractSectionsFromBody
     (Some \<lparr>body_content = Some [Paragraph (textParagraph (Some (js ''SUBTITLE'')) (js ''Setup'')),
                                 normalText (js ''Hello'')]\<rparr>) (js ''Guide'') =
     [\<lparr>title = js ''Setup'', content = js ''Hello'' @ [NL], level = 2,
       parentTab = js ''Guide'', sourceDocument = None\<rparr>]"
proof -
  let ?t = "textParagraph (Some (js ''TITLE'')) (js ''Setup'')"
  let ?s = "textParagraph (Some (js ''SUBTITLE'')) (js ''Setup'')"
  let ?es = "[normalText (js ''Hello'')]"
  have n: "namedStyle ?t = Some (js ''TITLE'')" "namedStyle ?s = Some (js ''SUBTITLE'')"
    by (simp_all add: namedStyle_def textParagraph_def)
  have f: "trim (extractFormattedTextFromParagraph ?t) \<noteq> []"
    "trim (extractFormattedTextFromParagraph ?s) \<noteq> []"
    by (simp_all add: fmt_textParagraph scenario_strings js_nonempty)
  have hb: "trim (js ''Hello'' @ [NL]) \<noteq> []"
    by (simp add: trim_append_nonblank trim_Hello js_nonempty)
  from getHeadingLevel_title_subtitle[of ?t ?es "js ''Guide''" initialState] n f
  have 1: "traversalSections (js ''Guide'') (Paragraph ?t # ?es) =
      [\<lparr>title = js ''Setup'', content = js ''Hello'' @ [NL], level = 1,
        parentTab = js ''Guide'', sourceDocument = None\<rparr>]"
    by (simp add: fixture_simps trim_Hello hb)
  from getHeadingLevel_title_subtitle[of ?s ?es "js ''Guide''" initialState] n f
  have 2: "traversalSections (js ''Guide'') (Paragraph ?s # ?es) =
      [\<lparr>title = js ''Setup'', content = js ''Hello'' @ [NL], level = 2,
        parentTab = js ''Guide'', sourceDocument = None\<rparr>]"
    by (simp add: fixture_simps trim_Hello hb)
  have 3: "getHeadingLevel (textParagraph (Some (js ''TITLE'')) (js ''Guide'')) = 1 \<and>
   getHeadingLevel (textParagraph (Some (js ''SUBTITLE'')) (js ''Guide'')) = 2 \<and>
   getHeadingLevel (textParagraph (Some (js ''NORMAL_TEXT'')) (js ''Guide'')) = 0 \<and>
   getHeadingLevel (textParagraph None (js ''Guide'')) = 0"
    using getHeadingLevel_title_subtitle[of "textParagraph (Some (js ''TITLE'')) (js ''Guide'')" "[]" "js ''Guide''" initialState]
      getHeadingLevel_title_subtitle[of "textParagraph (Some (js ''SUBTITLE'')) (js ''Guide'')" "[]" "js ''Guide''" initialState]
      getHeadingLevel_title_subtitle[of "textParagraph (Some (js ''NORMAL_TEXT'')) (js ''Guide'')" "[]" "js ''Guide''" initialState]
      getHeadingLevel_title_subtitle[of "textParagraph None (js ''Guide'')" "[]" "js ''Guide''" initialState]
    by (simp add: namedStyle_def textParagraph_def js_inj)
  show ?thesis
    using 3 by (simp add: extractSectionsFromBody_def 1 2 withFallback_cases renameSingle_def not_Tab_Guide)
qed

end
